theory Spec2Isabelle
  imports Complex_Main
begin

section \<open>Errors\<close>

text \<open>
  The exceptions that leave a function of the two source files are the values of
  \<open>error\<close>: \<open>utils.py\<close> raises the generic \<open>Exception\<close> with a fixed message
  when the rate limit is hit. \<open>requests.post\<close> raises while it prepares the
  request when the URL is unusable (\<open>InvalidURL\<close> stands for \<open>MissingSchema\<close>,
  \<open>InvalidSchema\<close> and \<open>InvalidURL\<close>) or the payload cannot be encoded (an
  infinity or NaN gives \<open>InvalidJSONError\<close>, a numpy scalar \<open>TypeError\<close>), and it
  raises a connection error when the transport fails; \<open>response.json()\<close> raises
  a decoding error when the body is not JSON. The \<open>KeyError\<close> of a row lookup is
  a type of its own: it is the one exception the row loop catches.
\<close>

datatype error =
    Exception string
  | InvalidURL
  | InvalidJSONError
  | TypeError
  | ConnectionError
  | JSONDecodeError

datatype key_error = KeyError string

definition RateLimitExceeded :: error where
  "RateLimitExceeded = Exception ''Rate limit exceeded. Please try again later.''"

section \<open>The rate limiter (utils.py, class RateLimiter)\<close>

text \<open>
  The object holds its configuration and the deque of call times. Readings of
  \<open>time.time()\<close> are real numbers passed in by the caller of the model; the lock
  makes the block under \<open>with self.lock\<close> one atomic step, which is what
  \<open>critical_section\<close> is.
\<close>

record RateLimiter =
  max_calls :: int
  time_window :: int
  calls :: "real list"

definition RateLimiter_init :: "int \<Rightarrow> int \<Rightarrow> RateLimiter" where
  "RateLimiter_init m w = \<lparr>max_calls = m, time_window = w, calls = []\<rparr>"

text \<open>\<open>while self.calls and now - self.calls[0] >= self.time_window: self.calls.popleft()\<close>\<close>

fun evict :: "real \<Rightarrow> int \<Rightarrow> real list \<Rightarrow> real list" where
  "evict now w [] = []"
| "evict now w (t # ts) = (if now - t \<ge> real_of_int w then evict now w ts else t # ts)"

definition critical_section :: "real \<Rightarrow> RateLimiter \<Rightarrow> (error + unit) \<times> RateLimiter" where
  "critical_section now rl =
     (let rl1 = rl\<lparr>calls := evict now (time_window rl) (calls rl)\<rparr>
      in if int (length (calls rl1)) \<ge> max_calls rl1
         then (Inl RateLimitExceeded, rl1)
         else (Inr (), rl1\<lparr>calls := calls rl1 @ [now]\<rparr>))"

text \<open>
  The decorated function. \<open>func\<close> is the wrapped function; whatever it does to the
  world outside the limiter is the state \<open>'w\<close> it threads. It runs after the
  critical section, and only when that section did not raise.
\<close>

definition wrapper ::
  "('a \<Rightarrow> 'w \<Rightarrow> 'r \<times> 'w) \<Rightarrow> real \<Rightarrow> 'a \<Rightarrow> RateLimiter \<times> 'w \<Rightarrow> (error + 'r) \<times> RateLimiter \<times> 'w" where
  "wrapper func now args st =
     (case critical_section now (fst st) of
        (Inl e, rl') \<Rightarrow> (Inl e, rl', snd st)
      | (Inr u, rl') \<Rightarrow> (case func args (snd st) of (r, w') \<Rightarrow> (Inr r, rl', w')))"

text \<open>The limiter objects a program can hold: a freshly constructed one, and any
  one that guarded calls have gone through, at whatever times.\<close>

inductive reachable :: "RateLimiter \<Rightarrow> bool" where
  fresh: "reachable (RateLimiter_init m w)"
| step: "reachable rl \<Longrightarrow> reachable (snd (critical_section now rl))"

text \<open>A limiter after attempts at the given times, one after the other.\<close>

definition attempts :: "real list \<Rightarrow> RateLimiter \<Rightarrow> RateLimiter" where
  "attempts nows rl = fold (\<lambda>now rl. snd (critical_section now rl)) nows rl"

text \<open>The invariant of the deque: no more entries than the quota, oldest first.\<close>

definition limiter_inv :: "RateLimiter \<Rightarrow> bool" where
  "limiter_inv rl \<longleftrightarrow> int (length (calls rl)) \<le> max_calls rl \<and> sorted (calls rl)"

text \<open>An instrumented wrapped function: it counts its own invocations.\<close>

definition counting :: "'a \<Rightarrow> nat \<Rightarrow> 'a \<times> nat" where
  "counting x n = (x, Suc n)"

section \<open>Python values\<close>

text \<open>
  A cell of a table is a Python scalar: \<open>str\<close>, \<open>int\<close>, \<open>float\<close>, \<open>bool\<close> or
  \<open>None\<close>. A float is a rational (every finite double is one), an infinity or
  NaN; Python compares an \<open>int\<close> with a \<open>float\<close> exactly, so comparison on these
  values is comparison of rationals. Strings are sequences of code points below
  256. The row loop may be handed two more kinds of value, the numpy scalars
  \<open>numpy.int64\<close> and \<open>numpy.bool_\<close>, which are not instances of \<open>int\<close> or
  \<open>float\<close>; a \<open>numpy.float64\<close> is an instance of \<open>float\<close> and is a \<open>PyFloat\<close>.
\<close>

datatype pyfloat = Finite rat | PosInf | NegInf | NaN

datatype cell =
    PyStr string | PyInt int | PyFloat pyfloat | PyBool bool | PyNone
  | NpInt64 int | NpBool bool

text \<open>\<open>isinstance(v, (int, float))\<close>: \<open>bool\<close> is a subclass of \<open>int\<close>.\<close>

fun isinstance_int_float :: "cell \<Rightarrow> bool" where
  "isinstance_int_float (PyInt i) = True"
| "isinstance_int_float (PyFloat f) = True"
| "isinstance_int_float (PyBool b) = True"
| "isinstance_int_float (PyStr s) = False"
| "isinstance_int_float PyNone = False"
| "isinstance_int_float (NpInt64 i) = False"
| "isinstance_int_float (NpBool b) = False"

text \<open>The number an instance of \<open>int\<close> or \<open>float\<close> stands for in a comparison;
  \<open>None\<close> for the other values, on which the code makes no comparison.\<close>

fun number_of :: "cell \<Rightarrow> pyfloat option" where
  "number_of (PyInt i) = Some (Finite (of_int i))"
| "number_of (PyFloat f) = Some f"
| "number_of (PyBool b) = Some (Finite (if b then 1 else 0))"
| "number_of (PyStr s) = None"
| "number_of PyNone = None"
| "number_of (NpInt64 i) = None"
| "number_of (NpBool b) = None"

text \<open>\<open>a <= b\<close> on numbers: false whenever NaN is involved.\<close>

fun py_le :: "pyfloat \<Rightarrow> pyfloat \<Rightarrow> bool" where
  "py_le NaN b = False"
| "py_le a NaN = False"
| "py_le NegInf b = True"
| "py_le a PosInf = True"
| "py_le (Finite a) (Finite b) = (a \<le> b)"
| "py_le PosInf b = False"
| "py_le a NegInf = False"

subsection \<open>Library functions taken as parameters\<close>

text \<open>
  Some functions of the Python library decide what the code does and are not part
  of the repository: whether \<open>ipaddress.ip_address(s)\<close> returns (rather than raising
  \<open>ValueError\<close>), whether \<open>datetime.strptime(s, fmt)\<close> returns, the text of a
  finite float, the double an \<open>int64\<close> becomes when pandas converts a column of
  integers to floats, and whether \<open>requests\<close> accepts a URL. They are the fields
  of \<open>pylib\<close>.
\<close>

record pylib =
  ip_address_parses :: "string \<Rightarrow> bool"
  strptime_parses :: "string \<Rightarrow> string \<Rightarrow> bool"
  float_repr :: "rat \<Rightarrow> string"
  double_of_int :: "int \<Rightarrow> rat"
  url_prepares :: "string \<Rightarrow> bool"

subsection \<open>\<open>str\<close>, \<open>lower\<close>, \<open>strip\<close>\<close>

definition digit_char :: "nat \<Rightarrow> char" where
  "digit_char d = char_of (48 + d)"

fun show_nat :: "nat \<Rightarrow> string" where
  "show_nat n = (if n < 10 then [digit_char n] else show_nat (n div 10) @ [digit_char (n mod 10)])"

declare show_nat.simps [simp del]

definition show_int :: "int \<Rightarrow> string" where
  "show_int i = (if i < 0 then CHR ''-'' # show_nat (nat (- i)) else show_nat (nat i))"

fun py_str :: "pylib \<Rightarrow> cell \<Rightarrow> string" where
  "py_str L (PyStr s) = s"
| "py_str L (PyInt i) = show_int i"
| "py_str L (PyFloat (Finite q)) = float_repr L q"
| "py_str L (PyFloat PosInf) = ''inf''"
| "py_str L (PyFloat NegInf) = ''-inf''"
| "py_str L (PyFloat NaN) = ''nan''"
| "py_str L (PyBool b) = (if b then ''True'' else ''False'')"
| "py_str L PyNone = ''None''"
| "py_str L (NpInt64 i) = show_int i"
| "py_str L (NpBool b) = (if b then ''True'' else ''False'')"

text \<open>\<open>str.lower\<close> on code points below 256: A-Z, and the Latin-1 capitals
  (192 to 222 without the multiplication sign 215), move up by 32.\<close>

definition lower_char :: "char \<Rightarrow> char" where
  "lower_char c =
     (let n = (of_char c :: nat)
      in if (65 \<le> n \<and> n \<le> 90) \<or> (192 \<le> n \<and> n \<le> 222 \<and> n \<noteq> 215)
         then char_of (n + 32) else c)"

definition py_lower :: "string \<Rightarrow> string" where
  "py_lower s = map lower_char s"

text \<open>\<open>str.isspace\<close> on code points below 256.\<close>

definition py_isspace :: "char \<Rightarrow> bool" where
  "py_isspace c =
     (let n = (of_char c :: nat)
      in (9 \<le> n \<and> n \<le> 13) \<or> (28 \<le> n \<and> n \<le> 32) \<or> n = 133 \<or> n = 160)"

definition py_strip :: "string \<Rightarrow> string" where
  "py_strip s = rev (dropWhile py_isspace (rev (dropWhile py_isspace s)))"

text \<open>\<open>repr\<close> of a string with no quote, backslash or control character in it, which
  is what \<open>str\<close> of a \<open>KeyError\<close> prints for the labels this code looks up.\<close>

definition py_repr_str :: "string \<Rightarrow> string" where
  "py_repr_str s = CHR 0x27 # s @ [CHR 0x27]"

fun str_key_error :: "key_error \<Rightarrow> string" where
  "str_key_error (KeyError k) = py_repr_str k"

section \<open>The validator (utils.py, class NetflowValidator)\<close>

definition TIMESTAMP_FORMATS :: "string list" where
  "TIMESTAMP_FORMATS = [''%Y-%m-%d %H:%M:%S'', ''%Y-%m-%dT%H:%M:%S'', ''%Y/%m/%d %H:%M:%S'']"

definition PORT_MIN :: int where "PORT_MIN = 0"

definition PORT_MAX :: int where "PORT_MAX = 65535"

definition validate_ip :: "pylib \<Rightarrow> string \<Rightarrow> bool" where
  "validate_ip L ip = ip_address_parses L ip"

text \<open>\<open>isinstance(port, (int, float)) and PORT_MIN <= port <= PORT_MAX\<close>; the
  comparisons are only evaluated on a number.\<close>

definition validate_port :: "cell \<Rightarrow> bool" where
  "validate_port port =
     (isinstance_int_float port \<and>
      (case number_of port of
         None \<Rightarrow> False
       | Some n \<Rightarrow> py_le (Finite (of_int PORT_MIN)) n \<and> py_le n (Finite (of_int PORT_MAX))))"

text \<open>The loop over the formats returns at the first one that parses.\<close>

fun try_formats :: "pylib \<Rightarrow> string \<Rightarrow> string list \<Rightarrow> bool" where
  "try_formats L timestamp [] = False"
| "try_formats L timestamp (fmt # fmts) =
     (if strptime_parses L timestamp fmt then True else try_formats L timestamp fmts)"

definition validate_timestamp :: "pylib \<Rightarrow> string \<Rightarrow> bool" where
  "validate_timestamp L timestamp = try_formats L timestamp TIMESTAMP_FORMATS"

text \<open>\<open>isinstance(value, (int, float)) and value >= 0\<close>\<close>

definition validate_numeric :: "cell \<Rightarrow> bool" where
  "validate_numeric v =
     (isinstance_int_float v \<and>
      (case number_of v of None \<Rightarrow> False | Some n \<Rightarrow> py_le (Finite 0) n))"

section \<open>Tables\<close>

text \<open>
  A \<open>DataFrame\<close> is its column labels, the dtype of each column and its rows; the
  row labels are the positions \<open>0, 1, ...\<close> that \<open>read_csv\<close> gives. Tables are
  objects: a variable holds a reference into the heap, \<open>df.copy()\<close> allocates, and
  \<open>rename(..., inplace=True)\<close> and \<open>df[col] = ...\<close> update the object a reference
  points to.
\<close>

datatype dtype = Object | Int64 | Float64 | Boolean

record DataFrame =
  columns :: "string list"
  dtypes :: "dtype list"
  rows :: "cell list list"

type_synonym ref = nat

type_synonym heap = "DataFrame list"

definition df_copy :: "ref \<Rightarrow> heap \<Rightarrow> ref \<times> heap" where
  "df_copy r h = (length h, h @ [h ! r])"

text \<open>\<open>df.rename(columns={old: new}, inplace=True)\<close>\<close>

definition rename_columns :: "string \<Rightarrow> string \<Rightarrow> DataFrame \<Rightarrow> DataFrame" where
  "rename_columns old new df = df\<lparr>columns := map (\<lambda>c. if c = old then new else c) (columns df)\<rparr>"

definition rename_inplace :: "ref \<Rightarrow> string \<Rightarrow> string \<Rightarrow> heap \<Rightarrow> heap" where
  "rename_inplace r old new h = h[r := rename_columns old new (h ! r)]"

text \<open>\<open>row[field]\<close> on the row of a table whose labels are \<open>cols\<close>.\<close>

definition row_getitem :: "string list \<Rightarrow> cell list \<Rightarrow> string \<Rightarrow> key_error + cell" where
  "row_getitem cols row field =
     (case map_of (zip cols row) field of None \<Rightarrow> Inl (KeyError field) | Some v \<Rightarrow> Inr v)"

text \<open>\<open>df.select_dtypes(include=['object']).columns\<close>\<close>

definition select_dtypes_object :: "DataFrame \<Rightarrow> string list" where
  "select_dtypes_object df = map fst (filter (\<lambda>(c, d). d = Object) (zip (columns df) (dtypes df)))"

text \<open>\<open>df.to_dict(orient='records')\<close> hands out Python scalars.\<close>

fun box_native :: "cell \<Rightarrow> cell" where
  "box_native (NpInt64 i) = PyInt i"
| "box_native (NpBool b) = PyBool b"
| "box_native v = v"

definition to_dict_records :: "DataFrame \<Rightarrow> (string \<times> cell) list list" where
  "to_dict_records df = map (\<lambda>row. zip (columns df) (map box_native row)) (rows df)"

text \<open>
  \<open>df.iterrows()\<close> makes one Series of each row, of the one dtype that holds all
  the columns: integers stay \<open>int64\<close> when every column is one, integers and
  floats become \<open>float64\<close>, booleans stay booleans when every column is one, and
  any other mix (a text column, or booleans beside numbers) gives a Series of
  Python objects. So \<open>row[field]\<close> is a numpy scalar in the first three cases and
  the Python scalar of the cell in the last.
\<close>

definition common_dtype :: "dtype list \<Rightarrow> dtype" where
  "common_dtype ds =
     (if ds = [] then Object
      else if list_all (\<lambda>d. d = Int64) ds then Int64
      else if list_all (\<lambda>d. d = Int64 \<or> d = Float64) ds then Float64
      else if list_all (\<lambda>d. d = Boolean) ds then Boolean
      else Object)"

fun upcast :: "pylib \<Rightarrow> dtype \<Rightarrow> cell \<Rightarrow> cell" where
  "upcast L Int64 (PyInt i) = NpInt64 i"
| "upcast L Float64 (PyInt i) = PyFloat (Finite (double_of_int L i))"
| "upcast L Boolean (PyBool b) = NpBool b"
| "upcast L d v = v"

definition iterrows_cells :: "pylib \<Rightarrow> dtype list \<Rightarrow> cell list \<Rightarrow> cell list" where
  "iterrows_cells L ds row = map (upcast L (common_dtype ds)) row"

section \<open>Tag removal: \<open>re.sub(r'<[^>]*>', '', x)\<close>\<close>

text \<open>
  The pattern matches a \<open><\<close>, then the longest run of characters other than \<open>>\<close>,
  then a \<open>>\<close>: from a \<open><\<close> to the first \<open>>\<close> after it. \<open>re.sub\<close> scans from the
  left; where a match starts it drops the match and goes on behind it, elsewhere it
  keeps the character and moves one position on.
\<close>

function re_sub_tags :: "string \<Rightarrow> string" where
  "re_sub_tags [] = []"
| "re_sub_tags (c # cs) =
     (if c = CHR ''<'' \<and> CHR ''>'' \<in> set cs
      then re_sub_tags (tl (dropWhile (\<lambda>x. x \<noteq> CHR ''>'') cs))
      else c # re_sub_tags cs)"
  by pat_completeness auto
termination
proof (relation "measure length")
  fix c :: char and cs :: string
  have "length (dropWhile (\<lambda>x. x \<noteq> CHR ''>'') cs) \<le> length cs"
    by (rule length_dropWhile_le)
  then show "(tl (dropWhile (\<lambda>x. x \<noteq> CHR ''>'') cs), c # cs) \<in> measure length"
    by simp
qed simp_all

text \<open>A string has a tag when some \<open><\<close> in it has a \<open>>\<close> somewhere after it.\<close>

fun has_tag :: "string \<Rightarrow> bool" where
  "has_tag [] = False"
| "has_tag (c # cs) = ((c = CHR ''<'' \<and> CHR ''>'' \<in> set cs) \<or> has_tag cs)"

section \<open>\<open>sanitize_dataframe\<close> (utils.py)\<close>

definition normalize_label :: "string \<Rightarrow> string" where
  "normalize_label column = py_strip (py_lower column)"

definition numeric_fields :: "string list" where
  "numeric_fields = [''flow_dur'', ''fwd_bytes'', ''bwd_bytes'', ''total_bwd_pkts'', ''total_fwd_pkts'']"

text \<open>The f-strings of the error list.\<close>

definition invalid_msg :: "pylib \<Rightarrow> string \<Rightarrow> nat \<Rightarrow> cell \<Rightarrow> string" where
  "invalid_msg L what idx v =
     ''Invalid '' @ what @ '' at row '' @ show_nat idx @ '': '' @ py_str L v"

definition missing_msg :: "key_error \<Rightarrow> string" where
  "missing_msg e = ''Missing required column: '' @ str_key_error e"

text \<open>
  One check of the \<open>try\<close> body: the field looked up, the words the message uses for
  it, and the test. The body runs the ten checks in this order.
\<close>

type_synonym check = "string \<times> string \<times> (cell \<Rightarrow> bool)"

definition row_checks :: "pylib \<Rightarrow> check list" where
  "row_checks L =
     [(''src_ip'', ''source IP'', \<lambda>v. validate_ip L (py_str L v)),
      (''dest_ip'', ''destination IP'', \<lambda>v. validate_ip L (py_str L v)),
      (''src_port'', ''source port'', validate_port),
      (''dest_port'', ''destination port'', validate_port),
      (''timestamp'', ''timestamp'', \<lambda>v. validate_timestamp L (py_str L v))]
     @ map (\<lambda>field. (field, field, validate_numeric)) numeric_fields"

text \<open>
  The \<open>try\<close> body on one row. \<open>errors\<close> lives outside the \<open>try\<close>, so what was
  appended before a lookup raises stays appended; the raised error comes back
  beside the list.
\<close>

fun try_body ::
  "pylib \<Rightarrow> nat \<Rightarrow> (string \<Rightarrow> key_error + cell) \<Rightarrow> check list \<Rightarrow> string list
     \<Rightarrow> string list \<times> key_error option" where
  "try_body L idx row [] errors = (errors, None)"
| "try_body L idx row ((field, what, ok) # rest) errors =
     (case row field of
        Inl e \<Rightarrow> (errors, Some e)
      | Inr v \<Rightarrow> try_body L idx row rest (if ok v then errors else errors @ [invalid_msg L what idx v]))"

text \<open>\<open>try: ... except KeyError as e: errors.append(...)\<close>\<close>

definition validate_row ::
  "pylib \<Rightarrow> string list \<Rightarrow> nat \<Rightarrow> cell list \<Rightarrow> string list \<Rightarrow> string list" where
  "validate_row L cols idx row errors =
     (case try_body L idx (row_getitem cols row) (row_checks L) errors of
        (errors', None) \<Rightarrow> errors'
      | (errors', Some e) \<Rightarrow> errors' @ [missing_msg e])"

text \<open>\<open>for idx, row in clean_df.iterrows()\<close>\<close>

fun iterrows_loop ::
  "pylib \<Rightarrow> string list \<Rightarrow> dtype list \<Rightarrow> nat \<Rightarrow> cell list list \<Rightarrow> string list
     \<Rightarrow> string list" where
  "iterrows_loop L cols ds idx [] errors = errors"
| "iterrows_loop L cols ds idx (row # rest) errors =
     iterrows_loop L cols ds (Suc idx) rest
       (validate_row L cols idx (iterrows_cells L ds row) errors)"

text \<open>\<open>clean_df[col] = clean_df[col].astype(str).apply(lambda x: re.sub(...))\<close>: the
  column labelled \<open>col\<close> is replaced by its cleaned strings, a column of objects.\<close>

definition clean_cell :: "pylib \<Rightarrow> cell \<Rightarrow> cell" where
  "clean_cell L v = PyStr (re_sub_tags (py_str L v))"

definition strip_column :: "pylib \<Rightarrow> string \<Rightarrow> DataFrame \<Rightarrow> DataFrame" where
  "strip_column L col df =
     df\<lparr>dtypes := map (\<lambda>(c, d). if c = col then Object else d) (zip (columns df) (dtypes df)),
        rows := map (\<lambda>row. map (\<lambda>(c, v). if c = col then clean_cell L v else v)
                               (zip (columns df) row)) (rows df)\<rparr>"

definition strip_inplace :: "pylib \<Rightarrow> ref \<Rightarrow> string \<Rightarrow> heap \<Rightarrow> heap" where
  "strip_inplace L r col h = h[r := strip_column L col (h ! r)]"

definition sanitize_dataframe :: "pylib \<Rightarrow> ref \<Rightarrow> heap \<Rightarrow> (ref \<times> string list) \<times> heap" where
  "sanitize_dataframe L df h =
     (let (clean_df, h1) = df_copy df h;
          h2 = fold (\<lambda>column. rename_inplace clean_df column (normalize_label column))
                    (columns (h1 ! clean_df)) h1;
          errors = iterrows_loop L (columns (h2 ! clean_df)) (dtypes (h2 ! clean_df)) 0
                     (rows (h2 ! clean_df)) [];
          string_columns = select_dtypes_object (h2 ! clean_df);
          h3 = fold (strip_inplace L clean_df) string_columns h2
      in ((clean_df, errors), h3))"

text \<open>
  A table is well formed when every column has a dtype and every row a cell per
  column. The labels of a table this development speaks about stay distinct under
  normalisation: what pandas does with repeated labels is not modelled.
\<close>

definition wf_df :: "DataFrame \<Rightarrow> bool" where
  "wf_df df \<longleftrightarrow>
     length (dtypes df) = length (columns df) \<and>
     list_all (\<lambda>row. length row = length (columns df)) (rows df)"

text \<open>The cells of a table are of the dtype of their column: a column of
  \<open>int64\<close> holds integers of 64 bits, a column of objects any Python scalar.\<close>

fun cell_conforms :: "dtype \<Rightarrow> cell \<Rightarrow> bool" where
  "cell_conforms Int64 (PyInt i) = (- (2 ^ 63) \<le> i \<and> i < 2 ^ 63)"
| "cell_conforms Float64 (PyFloat f) = True"
| "cell_conforms Boolean (PyBool b) = True"
| "cell_conforms Object (NpInt64 i) = False"
| "cell_conforms Object (NpBool b) = False"
| "cell_conforms Object v = True"
| "cell_conforms d v = False"

definition conforming :: "DataFrame \<Rightarrow> bool" where
  "conforming df \<longleftrightarrow>
     list_all (\<lambda>row. list_all (\<lambda>(d, v). cell_conforms d v) (zip (dtypes df) row)) (rows df)"

definition distinct_labels :: "DataFrame \<Rightarrow> bool" where
  "distinct_labels df \<longleftrightarrow> distinct (map normalize_label (columns df))"

text \<open>What the table returned by \<open>sanitize_dataframe\<close> is, in one expression.\<close>

definition sanitized :: "pylib \<Rightarrow> DataFrame \<Rightarrow> DataFrame" where
  "sanitized L df =
     \<lparr>columns = map normalize_label (columns df),
      dtypes = dtypes df,
      rows = map (\<lambda>row. map (\<lambda>(d, v). if d = Object then clean_cell L v else v)
                             (zip (dtypes df) row)) (rows df)\<rparr>"

section \<open>The application (app.py)\<close>

text \<open>
  What \<open>requests.post\<close> is given and what comes back. The object passed as
  \<open>json=\<close> is a Python list or dict of cells; \<open>requests\<close> sends its JSON text.
  The remote service is a parameter: it answers a request with a response, or the
  transport fails.
\<close>

datatype json = JScalar cell | JArray "json list" | JObject "(string \<times> json) list"

record http_request =
  url :: string
  headers :: "(string \<times> string) list"
  json_arg :: json

record http_response =
  status_code :: nat
  text_body :: string
  json_content :: "json option"

type_synonym server = "http_request \<Rightarrow> http_response option"

text \<open>The environment variables read at start-up; \<open>os.getenv\<close> gives \<open>None\<close> for
  an unset one.\<close>

record environ =
  SERVING_API :: "string option"
  API_KEY :: "string option"

definition REQUIRED_COLUMNS :: "string list" where
  "REQUIRED_COLUMNS =
     [''timestamp'', ''flow_dur'', ''src_ip'', ''dest_ip'', ''dest_port'', ''src_port'',
      ''fwd_bytes'', ''bwd_bytes'', ''total_bwd_pkts'', ''total_fwd_pkts'']"

text \<open>An optional string inside an f-string.\<close>

definition format_opt :: "string option \<Rightarrow> string" where
  "format_opt x = (case x of None \<Rightarrow> ''None'' | Some s \<Rightarrow> s)"

text \<open>
  \<open>json.dumps(..., allow_nan=False)\<close>, by which \<open>requests\<close> encodes the payload,
  raises on the first value it cannot write: \<open>ValueError\<close> on an infinity or NaN,
  which \<open>requests\<close> turns into \<open>InvalidJSONError\<close>, and \<open>TypeError\<close> on a numpy
  scalar.
\<close>

fun cell_dumps_error :: "cell \<Rightarrow> error option" where
  "cell_dumps_error (PyFloat (Finite q)) = None"
| "cell_dumps_error (PyFloat f) = Some InvalidJSONError"
| "cell_dumps_error (NpInt64 i) = Some TypeError"
| "cell_dumps_error (NpBool b) = Some TypeError"
| "cell_dumps_error v = None"

fun first_dumps_error :: "cell list \<Rightarrow> error option" where
  "first_dumps_error [] = None"
| "first_dumps_error (v # vs) =
     (case cell_dumps_error v of None \<Rightarrow> first_dumps_error vs | Some e \<Rightarrow> Some e)"

fun json_leaves :: "json \<Rightarrow> cell list" where
  "json_leaves (JScalar v) = [v]"
| "json_leaves (JArray xs) = concat (map json_leaves xs)"
| "json_leaves (JObject kvs) = concat (map (\<lambda>kv. json_leaves (snd kv)) kvs)"

definition dumps_error :: "json \<Rightarrow> error option" where
  "dumps_error j = first_dumps_error (json_leaves j)"

text \<open>
  The body of \<open>call_serve_api\<close>. The world it changes is the log of requests
  sent. \<open>requests.post\<close> prepares the request first, the URL and then the body,
  and raises without sending anything when either fails. A status from 400 to 599
  makes \<open>raise_for_status\<close> raise \<open>HTTPError\<close>, which is caught: the function
  returns \<open>None\<close>. No other exception is caught.
\<close>

definition call_serve_api_body ::
  "pylib \<Rightarrow> environ \<Rightarrow> server \<Rightarrow> json \<Rightarrow> http_request list
     \<Rightarrow> (error + json option) \<times> http_request list" where
  "call_serve_api_body L env srv input_data posted =
     (let hdrs = [(''Authorization'', ''Bearer f'' @ format_opt (API_KEY env)),
                  (''Content-Type'', ''application/json'')];
          body = JArray [input_data]
      in case SERVING_API env of
           None \<Rightarrow> (Inl InvalidURL, posted)
         | Some u \<Rightarrow>
             if \<not> url_prepares L u then (Inl InvalidURL, posted)
             else (case dumps_error body of
                     Some e \<Rightarrow> (Inl e, posted)
                   | None \<Rightarrow>
                       (let request = \<lparr>url = u, headers = hdrs, json_arg = body\<rparr>;
                            posted' = posted @ [request]
                        in case srv request of
                             None \<Rightarrow> (Inl ConnectionError, posted')
                           | Some response \<Rightarrow>
                               if 400 \<le> status_code response \<and> status_code response < 600
                               then (Inr None, posted')
                               else (case json_content response of
                                       None \<Rightarrow> (Inl JSONDecodeError, posted')
                                     | Some j \<Rightarrow> (Inr (Some j), posted')))))"

text \<open>\<open>@api_rate_limiter def call_serve_api\<close>: the name is bound to the wrapper.\<close>

definition call_serve_api ::
  "pylib \<Rightarrow> environ \<Rightarrow> server \<Rightarrow> real \<Rightarrow> json \<Rightarrow> RateLimiter \<times> http_request list
     \<Rightarrow> (error + error + json option) \<times> RateLimiter \<times> http_request list" where
  "call_serve_api L env srv now input_data st =
     wrapper (call_serve_api_body L env srv) now input_data st"

definition api_rate_limiter :: RateLimiter where
  "api_rate_limiter = RateLimiter_init 100 60"

text \<open>The list of dicts of \<open>to_dict(orient='records')\<close> as the object handed on.\<close>

definition payload_of :: "DataFrame \<Rightarrow> json" where
  "payload_of df =
     JArray (map (\<lambda>record. JObject (map (\<lambda>(k, v). (k, JScalar v)) record)) (to_dict_records df))"

text \<open>Truth value of what \<open>call_serve_api\<close> returned, for \<open>if comparison_results\<close>.\<close>

fun truthy_cell :: "cell \<Rightarrow> bool" where
  "truthy_cell (PyStr s) = (s \<noteq> [])"
| "truthy_cell (PyInt i) = (i \<noteq> 0)"
| "truthy_cell (PyFloat f) = (f \<noteq> Finite 0)"
| "truthy_cell (PyBool b) = b"
| "truthy_cell PyNone = False"
| "truthy_cell (NpInt64 i) = (i \<noteq> 0)"
| "truthy_cell (NpBool b) = b"

fun truthy :: "json \<Rightarrow> bool" where
  "truthy (JScalar v) = truthy_cell v"
| "truthy (JArray xs) = (xs \<noteq> [])"
| "truthy (JObject kvs) = (kvs \<noteq> [])"

text \<open>Where the handling of an uploaded table ends.\<close>

datatype outcome =
    MissingColumns "string list"
  | RowLimit nat
  | Classified json
  | NoResults
  | Raised error

text \<open>
  The state of the process: the heap of tables, the limiter at module level and the
  log of requests posted.
\<close>

record world =
  tables :: heap
  limiter :: RateLimiter
  posted :: "http_request list"

text \<open>
  The block under \<open>if uploaded_file\<close>, from the table \<open>read_csv\<close> returned. It
  gives the reference and the error list the name \<open>df, errors\<close> is bound to, the
  outcome, and the new state.
\<close>

definition handle_upload ::
  "pylib \<Rightarrow> environ \<Rightarrow> server \<Rightarrow> real \<Rightarrow> ref \<Rightarrow> world \<Rightarrow> (ref \<times> string list \<times> outcome) \<times> world" where
  "handle_upload L env srv now df0 w =
     (let ((df, errors), h) = sanitize_dataframe L df0 (tables w);
          w1 = w\<lparr>tables := h\<rparr>;
          payload = payload_of (h ! df);
          missing_columns =
            filter (\<lambda>col. py_lower col \<notin> set (map py_lower (columns (h ! df)))) REQUIRED_COLUMNS
      in if missing_columns \<noteq> [] then ((df, errors, MissingColumns missing_columns), w1)
         else if length (rows (h ! df)) \<le> 100
         then (case call_serve_api L env srv now payload (limiter w1, posted w1) of
                 (result, rl, ps) \<Rightarrow>
                   ((df, errors,
                     (case result of
                        Inl e \<Rightarrow> Raised e
                      | Inr (Inl e) \<Rightarrow> Raised e
                      | Inr (Inr None) \<Rightarrow> NoResults
                      | Inr (Inr (Some j)) \<Rightarrow> if truthy j then Classified j else NoResults)),
                    w1\<lparr>limiter := rl, posted := ps\<rparr>))
         else ((df, errors, RowLimit (length (rows (h ! df)))), w1))"

text \<open>The claim about the body of a request: an array of \<open>n\<close> objects.\<close>

fun is_object :: "json \<Rightarrow> bool" where
  "is_object (JObject kvs) = True"
| "is_object j = False"

fun is_array_of_objects :: "nat \<Rightarrow> json \<Rightarrow> bool" where
  "is_array_of_objects n (JArray xs) = (length xs = n \<and> list_all is_object xs)"
| "is_array_of_objects n j = False"

section \<open>The rules of the spec for a record\<close>

text \<open>
  What sections 3 and 4.1 of the spec ask of a record, written from the spec's
  words and not from the validator: an address is a string the address grammar
  accepts; a port is an integer or a float from 0 to 65535; a timestamp is a string
  that matches one of the three patterns; a counter is an integer or a float that
  is at least 0. Numbers here are finite.
\<close>

fun finite_number :: "cell \<Rightarrow> rat option" where
  "finite_number (PyInt i) = Some (of_int i)"
| "finite_number (PyFloat (Finite q)) = Some q"
| "finite_number v = None"

definition spec_port :: "cell \<Rightarrow> bool" where
  "spec_port v = (case finite_number v of None \<Rightarrow> False | Some x \<Rightarrow> 0 \<le> x \<and> x \<le> 65535)"

definition spec_counter :: "cell \<Rightarrow> bool" where
  "spec_counter v = (case finite_number v of None \<Rightarrow> False | Some x \<Rightarrow> 0 \<le> x)"

fun spec_address :: "pylib \<Rightarrow> cell \<Rightarrow> bool" where
  "spec_address L (PyStr s) = ip_address_parses L s"
| "spec_address L v = False"

fun spec_timestamp :: "pylib \<Rightarrow> cell \<Rightarrow> bool" where
  "spec_timestamp L (PyStr s) =
     (strptime_parses L s ''%Y-%m-%d %H:%M:%S'' \<or>
      strptime_parses L s ''%Y-%m-%dT%H:%M:%S'' \<or>
      strptime_parses L s ''%Y/%m/%d %H:%M:%S'')"
| "spec_timestamp L v = False"

definition spec_field :: "string list \<Rightarrow> cell list \<Rightarrow> string \<Rightarrow> (cell \<Rightarrow> bool) \<Rightarrow> bool" where
  "spec_field cols row field P =
     (case map_of (zip cols row) field of None \<Rightarrow> False | Some v \<Rightarrow> P v)"

definition spec_record_valid :: "pylib \<Rightarrow> string list \<Rightarrow> cell list \<Rightarrow> bool" where
  "spec_record_valid L cols row \<longleftrightarrow>
     spec_field cols row ''timestamp'' (spec_timestamp L) \<and>
     spec_field cols row ''flow_dur'' spec_counter \<and>
     spec_field cols row ''src_ip'' (spec_address L) \<and>
     spec_field cols row ''dest_ip'' (spec_address L) \<and>
     spec_field cols row ''dest_port'' spec_port \<and>
     spec_field cols row ''src_port'' spec_port \<and>
     spec_field cols row ''fwd_bytes'' spec_counter \<and>
     spec_field cols row ''bwd_bytes'' spec_counter \<and>
     spec_field cols row ''total_bwd_pkts'' spec_counter \<and>
     spec_field cols row ''total_fwd_pkts'' spec_counter"

text \<open>A cell that JSON can hold: not an infinity, not NaN.\<close>

fun json_number_ok :: "cell \<Rightarrow> bool" where
  "json_number_ok (PyFloat (Finite q)) = True"
| "json_number_ok (PyFloat f) = False"
| "json_number_ok v = True"

section \<open>Examples\<close>

text \<open>
  The library on the values the examples use: on these it answers as Python does
  (\<open>192.168.1.10\<close> and \<open>10.0.0.5\<close> are addresses, 15 January 2024 at 10:30
  parses in each of the three formats, \<open>str(1.5)\<close> is \<open>1.5\<close> and \<open>str(0.0)\<close> is
  \<open>0.0\<close>, small integers are doubles, the endpoint is a URL).
\<close>

definition demo_lib :: pylib where
  "demo_lib =
     \<lparr>ip_address_parses = (\<lambda>s. s = ''192.168.1.10'' \<or> s = ''10.0.0.5''),
      strptime_parses = (\<lambda>s fmt.
         (s = ''2024-01-15 10:30:00'' \<and> fmt = ''%Y-%m-%d %H:%M:%S'') \<or>
         (s = ''2024-01-15T10:30:00'' \<and> fmt = ''%Y-%m-%dT%H:%M:%S'') \<or>
         (s = ''2024/01/15 10:30:00'' \<and> fmt = ''%Y/%m/%d %H:%M:%S'')),
      float_repr = (\<lambda>q. if q = 3 / 2 then ''1.5'' else if q = 0 then ''0.0'' else []),
      double_of_int = of_int,
      url_prepares = (\<lambda>u. u = ''https://serving.example/classify'')\<rparr>"

text \<open>A table with one column of text.\<close>

definition script_df :: DataFrame where
  "script_df =
     \<lparr>columns = [''note''], dtypes = [Object],
      rows = [[PyStr ''<script>alert(1)</script>benign'']]\<rparr>"

text \<open>A table without the column \<open>dest_port\<close>: a good row and one with a bad address.\<close>

definition no_dest_port_df :: DataFrame where
  "no_dest_port_df =
     \<lparr>columns = [''src_ip'', ''dest_ip'', ''src_port'', ''note''],
      dtypes = [Object, Object, Int64, Object],
      rows = [[PyStr ''192.168.1.10'', PyStr ''10.0.0.5'', PyInt 443, PyStr ''<b>ok</b>''],
              [PyStr ''999.1.1.1'', PyStr ''10.0.0.5'', PyInt 80, PyStr ''x'']]\<rparr>"

text \<open>A table of numbers only: every column is \<open>int64\<close>.\<close>

definition all_int_df :: DataFrame where
  "all_int_df =
     \<lparr>columns = [''src_ip'', ''dest_ip'', ''src_port''],
      dtypes = [Int64, Int64, Int64],
      rows = [[PyInt 5, PyInt 6, PyInt 80]]\<rparr>"

text \<open>
  The upload of the end-to-end claim: the ten required columns and a column of
  notes, five valid rows. The rows use the three timestamp formats, the ends of the
  port range, a fractional port and counters that are 0.
\<close>

definition five_rows_df :: DataFrame where
  "five_rows_df =
     \<lparr>columns = [''Timestamp'', ''flow_dur'', ''src_ip'', ''dest_ip'', ''dest_port'', ''src_port'',
                 ''fwd_bytes'', ''bwd_bytes'', ''total_bwd_pkts'', ''total_fwd_pkts '', ''note''],
      dtypes = [Object, Float64, Object, Object, Float64, Int64, Int64, Int64, Int64, Int64, Object],
      rows =
        [[PyStr ''2024-01-15 10:30:00'', PyFloat (Finite (3 / 2)), PyStr ''192.168.1.10'',
          PyStr ''10.0.0.5'', PyFloat (Finite 443), PyInt 51234, PyInt 1200, PyInt 3400,
          PyInt 12, PyInt 10, PyStr ''<b>web</b>''],
         [PyStr ''2024-01-15T10:30:00'', PyFloat (Finite 0), PyStr ''10.0.0.5'',
          PyStr ''192.168.1.10'', PyFloat (Finite 0), PyInt 65535, PyInt 0, PyInt 0,
          PyInt 0, PyInt 0, PyStr ''idle''],
         [PyStr ''2024/01/15 10:30:00'', PyFloat (Finite (3 / 2)), PyStr ''192.168.1.10'',
          PyStr ''10.0.0.5'', PyFloat (Finite (161 / 2)), PyInt 0, PyInt 1, PyInt 2,
          PyInt 3, PyInt 4, PyStr ''a < b''],
         [PyStr ''2024-01-15 10:30:00'', PyFloat (Finite 0), PyStr ''10.0.0.5'',
          PyStr ''10.0.0.5'', PyFloat (Finite 65535), PyInt 22, PyInt 5, PyInt 6,
          PyInt 7, PyInt 8, PyStr ''none''],
         [PyStr ''2024-01-15T10:30:00'', PyFloat (Finite (3 / 2)), PyStr ''192.168.1.10'',
          PyStr ''192.168.1.10'', PyFloat (Finite 53), PyInt 53, PyInt 9, PyInt 9,
          PyInt 9, PyInt 9, PyStr ''dns'']]\<rparr>"

definition demo_env :: environ where
  "demo_env = \<lparr>SERVING_API = Some ''https://serving.example/classify'', API_KEY = Some ''secret''\<rparr>"

text \<open>A service that answers every request with status 200 and an empty array.\<close>

definition demo_server :: server where
  "demo_server request = Some \<lparr>status_code = 200, text_body = ''[]'', json_content = Some (JArray [])\<rparr>"

definition demo_world :: world where
  "demo_world = \<lparr>tables = [five_rows_df], limiter = api_rate_limiter, posted = []\<rparr>"

text \<open>Messages of the form \<open>Missing required column: ...\<close>, and the checks whose field
  a table with labels \<open>cols\<close> has.\<close>

definition is_missing_msg :: "string \<Rightarrow> bool" where
  "is_missing_msg m \<longleftrightarrow> take 25 m = ''Missing required column: ''"

definition present :: "string list \<Rightarrow> check \<Rightarrow> bool" where
  "present cols ch \<longleftrightarrow> fst ch \<in> set cols"

section \<open>Facts about eviction\<close>

lemma evict_dropWhile: "evict now w cs = dropWhile (\<lambda>t. now - t \<ge> real_of_int w) cs"
  by (induction cs) auto

lemma length_evict_le: "length (evict now w cs) \<le> length cs"
  by (simp add: evict_dropWhile length_dropWhile_le)

lemma evict_same_length: "length (evict now w cs) = length cs \<Longrightarrow> evict now w cs = cs"
proof (induction cs)
  case Nil
  then show ?case by simp
next
  case (Cons t ts)
  show ?case
  proof (cases "now - t \<ge> real_of_int w")
    case True
    with Cons.prems have "length (evict now w ts) = Suc (length ts)" by simp
    moreover have "length (evict now w ts) \<le> length ts" by (rule length_evict_le)
    ultimately show ?thesis by simp
  next
    case False
    then show ?thesis by simp
  qed
qed

lemma sorted_evict: "sorted cs \<Longrightarrow> sorted (evict now w cs)"
  by (simp add: evict_dropWhile sorted_dropWhile)

lemma set_evict_subset: "set (evict now w cs) \<subseteq> set cs"
  by (simp add: evict_dropWhile set_dropWhileD subsetI)

lemma critical_section_rejects:
  "int (length (evict now (time_window rl) (calls rl))) \<ge> max_calls rl \<Longrightarrow>
   critical_section now rl = (Inl RateLimitExceeded, rl\<lparr>calls := evict now (time_window rl) (calls rl)\<rparr>)"
  by (simp add: critical_section_def)

lemma critical_section_admits:
  "int (length (evict now (time_window rl) (calls rl))) < max_calls rl \<Longrightarrow>
   critical_section now rl = (Inr (), rl\<lparr>calls := evict now (time_window rl) (calls rl) @ [now]\<rparr>)"
  by (simp add: critical_section_def)

lemma critical_section_config:
  "max_calls (snd (critical_section now rl)) = max_calls rl \<and>
   time_window (snd (critical_section now rl)) = time_window rl"
  by (simp add: critical_section_def Let_def)

text \<open>What reachable limiters have in common: the deque is empty or within the quota.\<close>

lemma reachable_within_quota:
  "reachable rl \<Longrightarrow> calls rl = [] \<or> int (length (calls rl)) \<le> max_calls rl"
proof (induction rule: reachable.induct)
  case (fresh m w)
  then show ?case by (simp add: RateLimiter_init_def)
next
  case (step rl now)
  let ?cs = "evict now (time_window rl) (calls rl)"
  have le: "length ?cs \<le> length (calls rl)" by (rule length_evict_le)
  show ?case
  proof (cases "int (length ?cs) \<ge> max_calls rl")
    case True
    then have eq: "calls (snd (critical_section now rl)) = ?cs"
      by (simp add: critical_section_rejects)
    from step.IH show ?thesis
    proof
      assume "calls rl = []"
      then show ?thesis using eq by simp
    next
      assume "int (length (calls rl)) \<le> max_calls rl"
      then show ?thesis using eq le by (simp add: critical_section_config)
    qed
  next
    case False
    then show ?thesis by (simp add: critical_section_admits)
  qed
qed

lemma rejection_evicts_nothing:
  assumes "reachable rl"
    and "int (length (evict now (time_window rl) (calls rl))) \<ge> max_calls rl"
  shows "evict now (time_window rl) (calls rl) = calls rl"
proof -
  let ?cs = "evict now (time_window rl) (calls rl)"
  have le: "length ?cs \<le> length (calls rl)" by (rule length_evict_le)
  from reachable_within_quota [OF assms(1)] show ?thesis
  proof
    assume "calls rl = []"
    then show ?thesis by simp
  next
    assume "int (length (calls rl)) \<le> max_calls rl"
    with assms(2) le have "length ?cs = length (calls rl)" by linarith
    then show ?thesis by (rule evict_same_length)
  qed
qed

lemma rejected_call_keeps_evicted:
  assumes "int (length (evict now (time_window rl) (calls rl))) \<ge> max_calls rl"
  shows "wrapper func now args (rl, w) =
           (Inl RateLimitExceeded, rl\<lparr>calls := evict now (time_window rl) (calls rl)\<rparr>, w)"
  using assms by (simp add: wrapper_def critical_section_rejects)

text \<open>
  Claim C4. A guarded call on a limiter the program can hold, at a time \<open>now\<close> at
  which the entries left after eviction number at least \<open>max_calls\<close>, raises the
  rate-limit failure, returns the world exactly as it was (the wrapped function was
  not run on it) and returns the limiter exactly as it was: no time is appended, and
  nothing was evicted either, since a deque within its quota that still fills the
  quota after eviction lost no entry.
\<close>

theorem rejected_call_leaves_limiter_unchanged:
  assumes "reachable rl"
    and "int (length (evict now (time_window rl) (calls rl))) \<ge> max_calls rl"
  shows "wrapper func now args (rl, w) = (Inl RateLimitExceeded, rl, w)"
proof -
  have "evict now (time_window rl) (calls rl) = calls rl"
    using assms by (rule rejection_evicts_nothing)
  then have "critical_section now rl = (Inl RateLimitExceeded, rl)"
    using assms(2) by (simp add: critical_section_rejects)
  then show ?thesis by (simp add: wrapper_def)
qed

lemma limiter_inv_step:
  assumes "limiter_inv rl" and "\<forall>t\<in>set (calls rl). t \<le> now"
  shows "limiter_inv (snd (critical_section now rl))"
proof -
  let ?cs = "evict now (time_window rl) (calls rl)"
  have le: "length ?cs \<le> length (calls rl)" by (rule length_evict_le)
  have so: "sorted ?cs" using assms(1) by (simp add: limiter_inv_def sorted_evict)
  have bd: "\<forall>t\<in>set ?cs. t \<le> now" using assms(2) set_evict_subset by blast
  show ?thesis
  proof (cases "int (length ?cs) \<ge> max_calls rl")
    case True
    then show ?thesis using assms(1) le so
      by (simp add: critical_section_rejects limiter_inv_def)
  next
    case False
    then show ?thesis using so bd
      by (simp add: critical_section_admits limiter_inv_def sorted_append)
  qed
qed

lemma calls_after_attempt:
  "set (calls (snd (critical_section now rl))) \<subseteq> insert now (set (calls rl))"
  using set_evict_subset [of now "time_window rl" "calls rl"]
  by (auto simp: critical_section_def Let_def)

lemma limiter_inv_attempts:
  "limiter_inv rl \<Longrightarrow> sorted nows \<Longrightarrow> \<forall>t\<in>set (calls rl). \<forall>n\<in>set nows. t \<le> n \<Longrightarrow>
   limiter_inv (attempts nows rl)"
proof (induction nows arbitrary: rl)
  case Nil
  then show ?case by (simp add: attempts_def)
next
  case (Cons now nows)
  let ?rl = "snd (critical_section now rl)"
  have "limiter_inv ?rl"
    using Cons.prems(1,3) by (intro limiter_inv_step) auto
  moreover have "sorted nows" using Cons.prems(2) by simp
  moreover have "\<forall>t\<in>set (calls ?rl). \<forall>n\<in>set nows. t \<le> n"
    using calls_after_attempt [of now rl] Cons.prems(2,3) by fastforce
  ultimately have "limiter_inv (attempts nows ?rl)" by (rule Cons.IH)
  then show ?case by (simp add: attempts_def)
qed

lemma length_bound_step:
  assumes "int (length (calls rl)) \<le> max_calls rl"
  shows "int (length (calls (snd (critical_section now rl)))) \<le> max_calls (snd (critical_section now rl))"
proof -
  let ?cs = "evict now (time_window rl) (calls rl)"
  have le: "length ?cs \<le> length (calls rl)" by (rule length_evict_le)
  show ?thesis
  proof (cases "int (length ?cs) \<ge> max_calls rl")
    case True
    then show ?thesis using assms le by (simp add: critical_section_rejects)
  next
    case False
    then show ?thesis by (simp add: critical_section_admits)
  qed
qed

lemma attempts_config:
  "max_calls (attempts nows rl) = max_calls rl \<and> time_window (attempts nows rl) = time_window rl"
  by (induction nows arbitrary: rl) (simp_all add: attempts_def critical_section_config)

lemma length_bound_attempts:
  "int (length (calls rl)) \<le> max_calls rl \<Longrightarrow>
   int (length (calls (attempts nows rl))) \<le> max_calls rl"
proof (induction nows arbitrary: rl)
  case Nil
  then show ?case by (simp add: attempts_def)
next
  case (Cons now nows)
  from length_bound_step [OF Cons.prems, of now]
  have "int (length (calls (attempts nows (snd (critical_section now rl)))))
          \<le> max_calls (snd (critical_section now rl))"
    by (rule Cons.IH)
  then show ?case by (simp add: attempts_def critical_section_config)
qed

lemma reachable_attempts: "reachable rl \<Longrightarrow> reachable (attempts nows rl)"
proof (induction nows arbitrary: rl)
  case Nil
  then show ?case by (simp add: attempts_def)
next
  case (Cons now nows)
  have "reachable (snd (critical_section now rl))" using Cons.prems by (rule reachable.step)
  then have "reachable (attempts nows (snd (critical_section now rl)))" by (rule Cons.IH)
  then show ?case by (simp add: attempts_def)
qed

text \<open>
  Claim C10, as amended. The invariant is: at most \<open>max_calls\<close> entries, in
  non-decreasing order. With a non-negative quota a fresh limiter satisfies it.
  Every attempt, admitted or rejected, at whatever clock reading, keeps the length
  within the quota, so after any sequence of attempts on a fresh limiter the length
  is within the quota. Every attempt made at a clock reading not earlier than the
  recorded ones keeps the order as well, so after any sequence of attempts at
  non-decreasing readings the whole invariant holds.
\<close>

theorem limiter_invariant_preserved:
  "(0 \<le> m \<longrightarrow> limiter_inv (RateLimiter_init m w)) \<and>
   (int (length (calls rl)) \<le> max_calls rl \<longrightarrow>
      int (length (calls (snd (critical_section now rl))))
        \<le> max_calls (snd (critical_section now rl))) \<and>
   (limiter_inv rl \<and> (\<forall>t\<in>set (calls rl). t \<le> now) \<longrightarrow>
      limiter_inv (snd (critical_section now rl))) \<and>
   (0 \<le> m \<longrightarrow> int (length (calls (attempts nows (RateLimiter_init m w)))) \<le> m) \<and>
   (0 \<le> m \<and> sorted nows \<longrightarrow> limiter_inv (attempts nows (RateLimiter_init m w)))"
proof -
  have i: "0 \<le> m \<Longrightarrow> limiter_inv (RateLimiter_init m w)"
    by (simp add: limiter_inv_def RateLimiter_init_def)
  have l: "0 \<le> m \<Longrightarrow> int (length (calls (attempts nows (RateLimiter_init m w)))) \<le> m"
    using length_bound_attempts [of "RateLimiter_init m w" nows]
    by (simp add: RateLimiter_init_def)
  have s: "0 \<le> m \<Longrightarrow> sorted nows \<Longrightarrow> limiter_inv (attempts nows (RateLimiter_init m w))"
    by (rule limiter_inv_attempts) (simp_all add: i, simp add: RateLimiter_init_def)
  from i l s limiter_inv_step length_bound_step show ?thesis by blast
qed

text \<open>
  The claim as it stands fails where the clock steps back between two calls, and
  for a negative quota: both limiters below are ones a program can hold.
\<close>

theorem limiter_invariant_counterexample:
  "reachable (attempts [10, 5] (RateLimiter_init 2 60)) \<and>
   calls (attempts [10, 5] (RateLimiter_init 2 60)) = [10, 5] \<and>
   \<not> limiter_inv (attempts [10, 5] (RateLimiter_init 2 60)) \<and>
   reachable (RateLimiter_init (- 1) 60) \<and>
   \<not> limiter_inv (RateLimiter_init (- 1) 60)"
proof -
  have "reachable (attempts [10, 5] (RateLimiter_init 2 60))"
    by (rule reachable_attempts) (rule reachable.fresh)
  moreover have "reachable (RateLimiter_init (- 1) 60)" by (rule reachable.fresh)
  moreover have "attempts [10, 5] (RateLimiter_init 2 60) =
                 \<lparr>max_calls = 2, time_window = 60, calls = [10, 5]\<rparr>"
    by (simp add: attempts_def critical_section_def RateLimiter_init_def)
  ultimately show ?thesis by (simp add: limiter_inv_def RateLimiter_init_def)
qed

lemma evict_keeps:
  "\<forall>t\<in>set cs. now - t < real_of_int w \<Longrightarrow> evict now w cs = cs"
  by (cases cs) auto

text \<open>
  Claim C3. With \<open>max_calls = 2\<close> and \<open>time_window = 60\<close>, on a fresh limiter:
  calls at times \<open>t1 \<le> t2 \<le> t3\<close> all less than 60 seconds after the first give
  the wrapped function's result twice and then the rate-limit failure (which changes
  nothing); a call at a time \<open>t4\<close> at least 60 seconds after the first call, so in
  particular one made more than the window after all of the earlier calls, gives the
  wrapped function's result again.
\<close>

theorem two_calls_per_window:
  assumes "t1 \<le> t2" and "t2 \<le> t3" and "t3 - t1 < 60" and "60 \<le> t4 - t1"
  shows "let s1 = wrapper func t1 a1 (RateLimiter_init 2 60, w0);
             s2 = wrapper func t2 a2 (snd s1);
             s3 = wrapper func t3 a3 (snd s2);
             s4 = wrapper func t4 a4 (snd s3)
         in fst s1 = Inr (fst (func a1 w0)) \<and>
            fst s2 = Inr (fst (func a2 (snd (snd s1)))) \<and>
            fst s3 = Inl RateLimitExceeded \<and> snd s3 = snd s2 \<and>
            fst s4 = Inr (fst (func a4 (snd (snd s3))))"
proof -
  let ?rl0 = "RateLimiter_init 2 60"
  let ?rl1 = "?rl0\<lparr>calls := [t1]\<rparr>"
  let ?rl2 = "?rl0\<lparr>calls := [t1, t2]\<rparr>"
  obtain r1 w1 where f1: "func a1 w0 = (r1, w1)" by (cases "func a1 w0")
  obtain r2 w2 where f2: "func a2 w1 = (r2, w2)" by (cases "func a2 w1")
  obtain r4 w4 where f4: "func a4 w2 = (r4, w4)" by (cases "func a4 w2")
  have c1: "critical_section t1 ?rl0 = (Inr (), ?rl1)"
    by (simp add: critical_section_def RateLimiter_init_def)
  have c2: "critical_section t2 ?rl1 = (Inr (), ?rl2)"
    using assms by (simp add: critical_section_def RateLimiter_init_def)
  have c3: "critical_section t3 ?rl2 = (Inl RateLimitExceeded, ?rl2)"
    using assms by (simp add: critical_section_def RateLimiter_init_def)
  have e4: "length (evict t4 60 [t1, t2]) \<le> 1"
    using assms by simp
  have c4: "fst (critical_section t4 ?rl2) = Inr ()"
    using e4 by (simp add: critical_section_def RateLimiter_init_def Let_def)
  have s1: "wrapper func t1 a1 (?rl0, w0) = (Inr r1, ?rl1, w1)"
    by (simp add: wrapper_def c1 f1)
  have s2: "wrapper func t2 a2 (?rl1, w1) = (Inr r2, ?rl2, w2)"
    by (simp add: wrapper_def c2 f2)
  have s3: "wrapper func t3 a3 (?rl2, w2) = (Inl RateLimitExceeded, ?rl2, w2)"
    by (simp add: wrapper_def c3)
  have s4: "fst (wrapper func t4 a4 (?rl2, w2)) = Inr r4"
    using c4 by (cases "critical_section t4 ?rl2") (simp add: wrapper_def f4)
  show ?thesis
    by (simp add: Let_def s1 s2 s3 s4 f1 f2 f4)
qed

theorem two_calls_per_window_witness:
  "(0::real) \<le> 10 \<and> (10::real) \<le> 20 \<and> (20::real) - 0 < 60 \<and> (60::real) \<le> 70 - 0 \<and>
   fst (wrapper counting 0 ''a'' (RateLimiter_init 2 60, 0)) = Inr ''a'' \<and>
   fst (wrapper counting 20 ''c''
          (snd (wrapper counting 10 ''b''
             (snd (wrapper counting 0 ''a'' (RateLimiter_init 2 60, 0)))))) = Inl RateLimitExceeded"
  using two_calls_per_window [of 0 10 20 70 counting "''a''" 0 "''b''" "''c''" "''d''"]
  by (simp add: Let_def counting_def)

theorem rejected_call_witness:
  "reachable (snd (critical_section 0 (RateLimiter_init 1 60))) \<and>
   wrapper counting 10 ''x'' (snd (critical_section 0 (RateLimiter_init 1 60)), 0)
     = (Inl RateLimitExceeded, \<lparr>max_calls = 1, time_window = 60, calls = [0]\<rparr>, 0)"
proof -
  let ?rl = "snd (critical_section 0 (RateLimiter_init 1 60))"
  have r: "reachable ?rl" by (rule reachable.step) (rule reachable.fresh)
  have v: "?rl = \<lparr>max_calls = 1, time_window = 60, calls = [0]\<rparr>"
    by (simp add: critical_section_def RateLimiter_init_def)
  have q: "int (length (evict 10 (time_window ?rl) (calls ?rl))) \<ge> max_calls ?rl"
    by (simp add: v)
  show ?thesis
    using r rejected_call_leaves_limiter_unchanged [OF r q, of counting "''x''" 0]
    by (simp add: v)
qed

theorem limiter_invariant_witness:
  "limiter_inv (RateLimiter_init 2 60) \<and>
   limiter_inv \<lparr>max_calls = 2, time_window = 60, calls = [0, 10]\<rparr> \<and>
   limiter_inv (snd (critical_section 70 \<lparr>max_calls = 2, time_window = 60, calls = [0, 10]\<rparr>)) \<and>
   calls (snd (critical_section 70 \<lparr>max_calls = 2, time_window = 60, calls = [0, 10]\<rparr>)) = [70] \<and>
   limiter_inv (attempts [0, 10, 20, 70] (RateLimiter_init 2 60)) \<and>
   calls (attempts [0, 10, 20, 70] (RateLimiter_init 2 60)) = [70] \<and>
   int (length (calls (attempts [10, 5, 7] (RateLimiter_init 2 60)))) \<le> 2"
  using limiter_invariant_preserved
          [of 2 60 "\<lparr>max_calls = 2, time_window = 60, calls = [0, 10]\<rparr>" 70 "[0, 10, 20, 70]"]
        limiter_invariant_preserved
          [of 2 60 "\<lparr>max_calls = 2, time_window = 60, calls = [0, 10]\<rparr>" 70 "[10, 5, 7]"]
  by (simp add: limiter_inv_def critical_section_def RateLimiter_init_def attempts_def)

section \<open>Facts about label normalisation\<close>

lemma isspace_lower_char: "py_isspace (lower_char c) = py_isspace c"
proof -
  have "(of_char c :: nat) < 256" by simp
  then show ?thesis
    by (auto simp: py_isspace_def lower_char_def Let_def)
qed

lemma lower_char_idem: "lower_char (lower_char c) = lower_char c"
proof -
  have "(of_char c :: nat) < 256" by simp
  then show ?thesis
    by (auto simp: lower_char_def Let_def)
qed

lemma py_lower_idem: "py_lower (py_lower s) = py_lower s"
  by (simp add: py_lower_def lower_char_idem)

lemma py_lower_strip: "py_lower (py_strip s) = py_strip (py_lower s)"
  by (simp add: py_lower_def py_strip_def rev_map dropWhile_map comp_def isspace_lower_char)

lemma dropWhile_rev_dropWhile:
  "dropWhile P (rev (dropWhile P (rev (dropWhile P xs)))) = rev (dropWhile P (rev (dropWhile P xs)))"
proof -
  let ?u = "dropWhile P xs"
  let ?w = "dropWhile P (rev ?u)"
  show ?thesis
  proof (cases "?w = []")
    case True
    show ?thesis unfolding True by simp
  next
    case False
    have "rev ?u = takeWhile P (rev ?u) @ ?w" by simp
    then have "?u = rev ?w @ rev (takeWhile P (rev ?u))"
      by (metis rev_append rev_rev_ident)
    with False have hd: "hd (rev ?w) = hd ?u" and ne: "?u \<noteq> []"
      by (metis hd_append2 rev_is_Nil_conv, metis append_is_Nil_conv rev_is_Nil_conv)
    from ne have "\<not> P (hd ?u)" by (rule hd_dropWhile)
    with hd False show ?thesis by (simp add: dropWhile_eq_self_iff)
  qed
qed

lemma py_strip_idem: "py_strip (py_strip s) = py_strip s"
  by (simp add: py_strip_def dropWhile_rev_dropWhile)

lemma normalize_label_idem: "normalize_label (normalize_label s) = normalize_label s"
  by (simp add: normalize_label_def py_lower_strip py_lower_idem py_strip_idem)

section \<open>Facts about tag removal\<close>

lemma set_tl_subset: "set (tl xs) \<subseteq> set xs"
  by (cases xs) auto

lemma set_re_sub_tags: "set (re_sub_tags s) \<subseteq> set s"
proof (induction s rule: re_sub_tags.induct)
  case 1
  then show ?case by simp
next
  case (2 c cs)
  show ?case
  proof (cases "c = CHR ''<'' \<and> CHR ''>'' \<in> set cs")
    case True
    have "set (tl (dropWhile (\<lambda>x. x \<noteq> CHR ''>'') cs)) \<subseteq> set cs"
      using set_tl_subset [of "dropWhile (\<lambda>x. x \<noteq> CHR ''>'') cs"] set_dropWhileD by fastforce
    with 2(1) [OF True] True show ?thesis by auto
  next
    case False
    with 2(2) [OF False] show ?thesis by auto
  qed
qed

lemma no_tag_after_re_sub: "\<not> has_tag (re_sub_tags s)"
proof (induction s rule: re_sub_tags.induct)
  case 1
  then show ?case by simp
next
  case (2 c cs)
  show ?case
  proof (cases "c = CHR ''<'' \<and> CHR ''>'' \<in> set cs")
    case True
    with 2(1) [OF True] show ?thesis by simp
  next
    case False
    with 2(2) [OF False] set_re_sub_tags [of cs] show ?thesis by auto
  qed
qed

lemma re_sub_tags_no_tag: "\<not> has_tag s \<Longrightarrow> re_sub_tags s = s"
  by (induction s) auto

lemma re_sub_tags_idem: "re_sub_tags (re_sub_tags s) = re_sub_tags s"
  by (simp add: re_sub_tags_no_tag no_tag_after_re_sub)

lemma has_tag_iff: "has_tag s \<longleftrightarrow> (\<exists>u v w. s = u @ CHR ''<'' # v @ CHR ''>'' # w)"
proof (induction s)
  case Nil
  then show ?case by simp
next
  case (Cons c cs)
  show ?case
  proof
    assume "has_tag (c # cs)"
    then consider "c = CHR ''<''" "CHR ''>'' \<in> set cs" | "has_tag cs" by auto
    then show "\<exists>u v w. c # cs = u @ CHR ''<'' # v @ CHR ''>'' # w"
    proof cases
      case 1
      from 1(2) obtain v w where "cs = v @ CHR ''>'' # w" by (meson split_list)
      with 1(1) have "c # cs = [] @ CHR ''<'' # v @ CHR ''>'' # w" by simp
      then show ?thesis by blast
    next
      case 2
      with Cons.IH obtain u v w where "cs = u @ CHR ''<'' # v @ CHR ''>'' # w" by blast
      then have "c # cs = (c # u) @ CHR ''<'' # v @ CHR ''>'' # w" by simp
      then show ?thesis by blast
    qed
  next
    assume "\<exists>u v w. c # cs = u @ CHR ''<'' # v @ CHR ''>'' # w"
    then obtain u v w where eq: "c # cs = u @ CHR ''<'' # v @ CHR ''>'' # w" by blast
    show "has_tag (c # cs)"
    proof (cases u)
      case Nil
      with eq show ?thesis by auto
    next
      case (Cons a u')
      with eq have "cs = u' @ CHR ''<'' # v @ CHR ''>'' # w" by simp
      with Cons.IH show ?thesis by auto
    qed
  qed
qed

lemma clean_cell_idem: "clean_cell L (clean_cell L v) = clean_cell L v"
  by (simp add: clean_cell_def re_sub_tags_idem)

section \<open>Facts about the loops of \<open>sanitize_dataframe\<close>\<close>

lemma fold_rename_inplace:
  "r < length h \<Longrightarrow>
   fold (\<lambda>column. rename_inplace r column (f column)) cs h =
   h[r := fold (\<lambda>column. rename_columns column (f column)) cs (h ! r)]"
  by (induction cs arbitrary: h) (simp_all add: rename_inplace_def)

lemma fold_strip_inplace:
  "r < length h \<Longrightarrow>
   fold (strip_inplace L r) cs h = h[r := fold (strip_column L) cs (h ! r)]"
  by (induction cs arbitrary: h) (simp_all add: strip_inplace_def)

lemma fold_rename_columns:
  "fold (\<lambda>column. rename_columns column (normalize_label column)) P df =
   df\<lparr>columns := map (\<lambda>c. if c \<in> set P then normalize_label c else c) (columns df)\<rparr>"
proof (induction P rule: rev_induct)
  case Nil
  then show ?case by simp
next
  case (snoc k P)
  have "map (\<lambda>c. if c = k then normalize_label k else c)
          (map (\<lambda>c. if c \<in> set P then normalize_label c else c) (columns df)) =
        map (\<lambda>c. if c \<in> set (P @ [k]) then normalize_label c else c) (columns df)"
    by (auto simp: normalize_label_idem)
  with snoc show ?case by (simp add: rename_columns_def)
qed

lemma relabel_twice:
  "map (\<lambda>(c, v). g c v) (zip cols (map (\<lambda>(c, v). f c v) (zip cols xs))) =
   map (\<lambda>(c, v). g c (f c v)) (zip cols xs)"
proof (induction cols arbitrary: xs)
  case Nil
  then show ?case by simp
next
  case (Cons c cols)
  then show ?case by (cases xs) simp_all
qed

lemma zip_snd_id: "length ys \<le> length xs \<Longrightarrow> map (\<lambda>(x, y). y) (zip xs ys) = ys"
proof (induction xs arbitrary: ys)
  case Nil
  then show ?case by simp
next
  case (Cons x xs)
  then show ?case by (cases ys) simp_all
qed

lemma fold_strip_column:
  assumes "wf_df df"
  shows "fold (strip_column L) S df =
     df\<lparr>dtypes := map (\<lambda>(c, d). if c \<in> set S then Object else d) (zip (columns df) (dtypes df)),
        rows := map (\<lambda>row. map (\<lambda>(c, v). if c \<in> set S then clean_cell L v else v)
                               (zip (columns df) row)) (rows df)\<rparr>"
proof (induction S rule: rev_induct)
  case Nil
  have "map (\<lambda>row. map (\<lambda>(c, v). v) (zip (columns df) row)) (rows df) = rows df"
    using assms by (intro map_idI) (simp add: wf_df_def list_all_iff zip_snd_id)
  moreover have "map (\<lambda>(c, d). d) (zip (columns df) (dtypes df)) = dtypes df"
    using assms by (simp add: wf_df_def zip_snd_id)
  ultimately show ?case by simp
next
  case (snoc x S)
  have d: "(\<lambda>c d. if c = x then Object else (if c \<in> set S then Object else d)) =
           (\<lambda>c d. if c \<in> set (S @ [x]) then Object else d)"
    by (intro ext) auto
  have r: "(\<lambda>c v. if c = x then clean_cell L (if c \<in> set S then clean_cell L v else v)
                               else (if c \<in> set S then clean_cell L v else v)) =
           (\<lambda>c v. if c \<in> set (S @ [x]) then clean_cell L v else v)"
    by (intro ext) (auto simp: clean_cell_idem)
  have d': "map (\<lambda>(c, d). if c = x then Object else d)
              (zip (columns df) (map (\<lambda>(c, d). if c \<in> set S then Object else d) (zip (columns df) (dtypes df)))) =
            map (\<lambda>(c, d). if c \<in> set (S @ [x]) then Object else d) (zip (columns df) (dtypes df))"
    using relabel_twice [of "\<lambda>c d. if c = x then Object else d" "columns df"
                            "\<lambda>c d. if c \<in> set S then Object else d" "dtypes df"]
    by (simp add: d)
  have r': "map (\<lambda>(c, v). if c = x then clean_cell L v else v)
              (zip (columns df) (map (\<lambda>(c, v). if c \<in> set S then clean_cell L v else v) (zip (columns df) row))) =
            map (\<lambda>(c, v). if c \<in> set (S @ [x]) then clean_cell L v else v) (zip (columns df) row)" for row
    using relabel_twice [of "\<lambda>c v. if c = x then clean_cell L v else v" "columns df"
                            "\<lambda>c v. if c \<in> set S then clean_cell L v else v" row]
    by (simp add: r)
  show ?case
    by (simp only: fold_append fold_simps comp_apply snoc.IH)
       (simp add: strip_column_def d' r' comp_def del: set_append)
qed

lemma object_label_iff:
  assumes "distinct cols" and "length ds = length cols" and "i < length cols"
  shows "cols ! i \<in> set (map fst (filter (\<lambda>(c, d). d = Object) (zip cols ds))) \<longleftrightarrow>
         ds ! i = Object"
proof
  assume "cols ! i \<in> set (map fst (filter (\<lambda>(c, d). d = Object) (zip cols ds)))"
  then obtain d where "(cols ! i, d) \<in> set (zip cols ds)" and "d = Object" by auto
  then obtain j where j: "j < length cols" "cols ! j = cols ! i" "ds ! j = Object"
    using assms(2) by (auto simp: set_zip)
  with assms(1,3) have "j = i" by (simp add: nth_eq_iff_index_eq)
  with j show "ds ! i = Object" by simp
next
  assume "ds ! i = Object"
  moreover have "(cols ! i, ds ! i) \<in> set (zip cols ds)"
    using assms(2,3) by (auto simp: set_zip)
  ultimately show "cols ! i \<in> set (map fst (filter (\<lambda>(c, d). d = Object) (zip cols ds)))"
    by force
qed

lemma by_label_is_by_dtype:
  assumes "distinct cols" and "length ds = length cols" and "length xs = length cols"
  shows "map (\<lambda>(c, v). if c \<in> set (map fst (filter (\<lambda>(c, d). d = Object) (zip cols ds)))
                         then f v else v) (zip cols xs) =
         map (\<lambda>(d, v). if d = Object then f v else v) (zip ds xs)"
  using assms by (auto simp: list_eq_iff_nth_eq object_label_iff simp del: set_map)

lemma object_dtypes_unchanged:
  assumes "distinct cols" and "length ds = length cols"
  shows "map (\<lambda>(c, d). if c \<in> set (map fst (filter (\<lambda>(c, d). d = Object) (zip cols ds)))
                         then Object else d) (zip cols ds) = ds"
  using assms by (auto simp: list_eq_iff_nth_eq object_label_iff simp del: set_map)

text \<open>The table \<open>sanitize_dataframe\<close> returns is a new object holding
  \<open>sanitized\<close> of the input; the heap it was given is a prefix of the new one.\<close>

lemma sanitize_dataframe_eq:
  assumes "r < length h" and "wf_df (h ! r)" and "distinct_labels (h ! r)"
  shows "sanitize_dataframe L r h =
           ((length h,
             iterrows_loop L (map normalize_label (columns (h ! r))) (dtypes (h ! r)) 0
               (rows (h ! r)) []),
            h @ [sanitized L (h ! r)])"
proof -
  let ?df = "h ! r"
  let ?h1 = "h @ [?df]"
  let ?n = "length h"
  let ?df2 = "?df\<lparr>columns := map normalize_label (columns ?df)\<rparr>"
  have n: "?n < length ?h1" by simp
  have at: "?h1 ! ?n = ?df" by simp
  have ren: "fold (\<lambda>column. rename_inplace ?n column (normalize_label column)) (columns ?df) ?h1
             = h @ [?df2]"
    by (simp add: fold_rename_inplace [OF n] fold_rename_columns)
  have wf2: "wf_df ?df2" using assms(2) by (simp add: wf_df_def)
  have sc: "select_dtypes_object ?df2 =
            map fst (filter (\<lambda>(c, d). d = Object) (zip (map normalize_label (columns ?df)) (dtypes ?df)))"
    by (simp add: select_dtypes_object_def)
  have dist: "distinct (map normalize_label (columns ?df))"
    using assms(3) by (simp add: distinct_labels_def)
  have len: "length (dtypes ?df) = length (map normalize_label (columns ?df))"
    using assms(2) by (simp add: wf_df_def)
  have rows: "map (\<lambda>row. map (\<lambda>(c, v). if c \<in> set (select_dtypes_object ?df2) then clean_cell L v else v)
                               (zip (map normalize_label (columns ?df)) row)) (rows ?df) =
        map (\<lambda>row. map (\<lambda>(d, v). if d = Object then clean_cell L v else v) (zip (dtypes ?df) row)) (rows ?df)"
  proof (rule map_cong [OF refl])
    fix row assume "row \<in> set (rows ?df)"
    then have "length row = length (map normalize_label (columns ?df))"
      using assms(2) by (simp add: wf_df_def list_all_iff)
    then show "map (\<lambda>(c, v). if c \<in> set (select_dtypes_object ?df2) then clean_cell L v else v)
                 (zip (map normalize_label (columns ?df)) row) =
               map (\<lambda>(d, v). if d = Object then clean_cell L v else v) (zip (dtypes ?df) row)"
      unfolding sc by (rule by_label_is_by_dtype [OF dist len])
  qed
  have dts: "map (\<lambda>(c, d). if c \<in> set (select_dtypes_object ?df2) then Object else d)
               (zip (map normalize_label (columns ?df)) (dtypes ?df)) = dtypes ?df"
    unfolding sc by (rule object_dtypes_unchanged [OF dist len])
  have strip: "fold (strip_column L) (select_dtypes_object ?df2) ?df2 = sanitized L ?df"
    by (simp add: fold_strip_column [OF wf2] rows dts sanitized_def)
  have n2: "?n < length (h @ [?df2])" by simp
  have fin: "fold (strip_inplace L ?n) (select_dtypes_object ?df2) (h @ [?df2]) = h @ [sanitized L ?df]"
    by (simp add: fold_strip_inplace [OF n2] strip)
  show ?thesis
    by (simp add: sanitize_dataframe_def df_copy_def ren fin)
qed

section \<open>The input of \<open>sanitize_dataframe\<close> is left alone\<close>

lemma sanitize_dataframe_allocates:
  assumes "r < length h"
  shows "\<exists>errors df'. sanitize_dataframe L r h = ((length h, errors), h @ [df'])"
proof -
  have n: "length h < length (h @ [h ! r])" by simp
  obtain df2 where ren:
    "fold (\<lambda>column. rename_inplace (length h) column (normalize_label column))
          (columns (h ! r)) (h @ [h ! r]) = h @ [df2]"
    by (simp add: fold_rename_inplace [OF n])
  have n2: "length h < length (h @ [df2])" by simp
  show ?thesis
    by (simp add: sanitize_dataframe_def df_copy_def ren fold_strip_inplace [OF n2])
qed

text \<open>
  Claim C8. Whatever the table, \<open>sanitize_dataframe\<close> works on a copy: in the heap
  it returns, the object the argument refers to is the table it was (same labels,
  same cells), as is every other table that existed, and the reference returned
  is to a new object.
\<close>

theorem sanitize_never_mutates_input:
  assumes "r < length h" and "sanitize_dataframe L r h = ((r', errors), h')"
  shows "h' ! r = h ! r \<and> columns (h' ! r) = columns (h ! r) \<and> rows (h' ! r) = rows (h ! r) \<and>
         take (length h) h' = h \<and> r' \<noteq> r"
proof -
  from sanitize_dataframe_allocates [OF assms(1), of L] assms(2)
  obtain df' where "r' = length h" and "h' = h @ [df']" by auto
  with assms(1) show ?thesis by (simp add: nth_append)
qed

theorem sanitize_never_mutates_input_witness:
  "sanitize_dataframe demo_lib 0 [script_df] =
     ((1, [missing_msg (KeyError ''src_ip'')]), [script_df, \<lparr>columns = [''note''], dtypes = [Object], rows = [[PyStr ''alert(1)benign'']]\<rparr>]) \<and>
   (snd (sanitize_dataframe demo_lib 0 [script_df])) ! 0 = script_df"
proof -
  have e: "sanitize_dataframe demo_lib 0 [script_df] =
     ((1, [missing_msg (KeyError ''src_ip'')]), [script_df, \<lparr>columns = [''note''], dtypes = [Object], rows = [[PyStr ''alert(1)benign'']]\<rparr>])"
    by code_simp
  show ?thesis
    using sanitize_never_mutates_input [of 0 "[script_df]" demo_lib _ _ _, OF _ e] e by simp
qed

section \<open>Ports\<close>

lemma validate_port_iff:
  "validate_port v \<longleftrightarrow>
     (\<exists>n. number_of v = Some n \<and> py_le (Finite 0) n \<and> py_le n (Finite 65535))"
  by (cases v) (auto simp: validate_port_def PORT_MIN_def PORT_MAX_def)

text \<open>
  Claim C6. \<open>validate_port\<close> is true of every \<open>int\<close> and every \<open>float\<close> from 0 to
  65535, whole or not (80.5 is accepted); it is false of -1 and of 65536, as an
  \<open>int\<close> or as a \<open>float\<close>, and of every value that is not an instance of \<open>int\<close>
  or \<open>float\<close>, such as a string or \<open>None\<close>. (A \<open>bool\<close> is an instance of \<open>int\<close>
  in Python and counts as the number 0 or 1.)
\<close>

theorem validate_port_range:
  "(0 \<le> i \<and> i \<le> 65535 \<longrightarrow> validate_port (PyInt i)) \<and>
   (0 \<le> q \<and> q \<le> 65535 \<longrightarrow> validate_port (PyFloat (Finite q))) \<and>
   validate_port (PyFloat (Finite (161 / 2))) \<and>
   \<not> validate_port (PyInt (- 1)) \<and> \<not> validate_port (PyFloat (Finite (- 1))) \<and>
   \<not> validate_port (PyInt 65536) \<and> \<not> validate_port (PyFloat (Finite 65536)) \<and>
   (\<not> isinstance_int_float v \<longrightarrow> \<not> validate_port v) \<and>
   \<not> validate_port (PyStr s) \<and> \<not> validate_port PyNone"
  by (simp add: validate_port_def PORT_MIN_def PORT_MAX_def)

theorem validate_port_range_witness:
  "validate_port (PyInt 443) \<and> validate_port (PyFloat (Finite 8080)) \<and>
   \<not> isinstance_int_float (PyStr ''80'') \<and> \<not> validate_port (PyStr ''80'')"
  using validate_port_range [of 443 8080 "PyStr ''80''" "''80''"]
  by simp

section \<open>Tags\<close>

lemma sanitized_cell:
  assumes "wf_df df" and "i < length (rows df)" and "j < length (columns df)"
  shows "rows (sanitized L df) ! i ! j =
           (if dtypes df ! j = Object then clean_cell L (rows df ! i ! j) else rows df ! i ! j)"
proof -
  have "rows df ! i \<in> set (rows df)" using assms(2) by simp
  then have "length (rows df ! i) = length (columns df)"
    using assms(1) by (simp add: wf_df_def list_all_iff)
  moreover have "length (dtypes df) = length (columns df)"
    using assms(1) by (simp add: wf_df_def)
  ultimately show ?thesis using assms(2,3) by (simp add: sanitized_def)
qed

text \<open>
  Claim C2, as amended. \<open>re.sub\<close> removes the tags and keeps the text between
  them: \<open><script>alert(1)</script>benign\<close> becomes \<open>alert(1)benign\<close>. In the
  table returned for a well-formed table with distinct labels, every cell of a
  column of dtype \<open>object\<close> is the string of the input cell with its tags
  removed, and no \<open><\<close> in it has a \<open>>\<close> after it; every other cell is the input
  cell.
\<close>

theorem tags_removed_from_object_columns:
  assumes "r < length h" and "wf_df (h ! r)" and "distinct_labels (h ! r)"
    and "sanitize_dataframe L r h = ((r', errors), h')"
    and "i < length (rows (h ! r))" and "j < length (columns (h ! r))"
  shows "re_sub_tags ''<script>alert(1)</script>benign'' = ''alert(1)benign'' \<and>
         rows (h' ! r') ! i ! j =
           (if dtypes (h ! r) ! j = Object
            then PyStr (re_sub_tags (py_str L (rows (h ! r) ! i ! j)))
            else rows (h ! r) ! i ! j) \<and>
         (dtypes (h ! r) ! j = Object \<longrightarrow>
            (\<exists>s. rows (h' ! r') ! i ! j = PyStr s \<and> \<not> has_tag s))"
proof -
  have ex: "re_sub_tags ''<script>alert(1)</script>benign'' = ''alert(1)benign''"
    by simp
  from assms(4) sanitize_dataframe_eq [OF assms(1-3), of L]
  have "h' ! r' = sanitized L (h ! r)" by auto
  then have "rows (h' ! r') ! i ! j =
      (if dtypes (h ! r) ! j = Object then clean_cell L (rows (h ! r) ! i ! j)
       else rows (h ! r) ! i ! j)"
    using sanitized_cell [OF assms(2,5,6)] by simp
  then show ?thesis
    using ex by (simp add: clean_cell_def no_tag_after_re_sub)
qed

theorem tags_removed_witness:
  "rows (snd (sanitize_dataframe demo_lib 0 [no_dest_port_df]) ! 1) ! 0 ! 3 = PyStr ''ok'' \<and>
   rows (snd (sanitize_dataframe demo_lib 0 [no_dest_port_df]) ! 1) ! 0 ! 2 = PyInt 443"
proof -
  obtain r' errors h' where e: "sanitize_dataframe demo_lib 0 [no_dest_port_df] = ((r', errors), h')"
    by (metis surj_pair)
  have r': "r' = 1"
    using e sanitize_dataframe_allocates [of 0 "[no_dest_port_df]" demo_lib] by auto
  have wf: "wf_df ([no_dest_port_df] ! 0)" by (simp add: wf_df_def no_dest_port_df_def)
  have di: "distinct_labels ([no_dest_port_df] ! 0)"
    by (simp add: distinct_labels_def no_dest_port_df_def normalize_label_def py_strip_def
                  py_lower_def py_isspace_def lower_char_def)
  have a: "rows (h' ! r') ! 0 ! 3 = PyStr ''ok''"
    using tags_removed_from_object_columns [of 0 "[no_dest_port_df]" demo_lib r' errors h' 0 3, OF _ wf di e]
    by (simp add: no_dest_port_df_def)
  have b: "rows (h' ! r') ! 0 ! 2 = PyInt 443"
    using tags_removed_from_object_columns [of 0 "[no_dest_port_df]" demo_lib r' errors h' 0 2, OF _ wf di e]
    by (simp add: no_dest_port_df_def)
  show ?thesis using a b by (simp add: e r')
qed

theorem script_tags_counterexample:
  "rows (snd (sanitize_dataframe demo_lib 0 [script_df]) ! 1) = [[PyStr ''alert(1)benign'']] \<and>
   rows (snd (sanitize_dataframe demo_lib 0 [script_df]) ! 1) \<noteq> [[PyStr ''benign'']]"
proof -
  have "sanitize_dataframe demo_lib 0 [script_df] =
     ((1, [missing_msg (KeyError ''src_ip'')]),
      [script_df, \<lparr>columns = [''note''], dtypes = [Object], rows = [[PyStr ''alert(1)benign'']]\<rparr>])"
    by code_simp
  then show ?thesis by simp
qed

section \<open>Sanitising twice\<close>

lemma wf_sanitized: "wf_df df \<Longrightarrow> wf_df (sanitized L df)"
  by (auto simp: wf_df_def sanitized_def list_all_iff)

lemma distinct_labels_sanitized: "distinct_labels df \<Longrightarrow> distinct_labels (sanitized L df)"
  by (simp add: distinct_labels_def sanitized_def comp_def normalize_label_idem)

lemma sanitized_idem: "sanitized L (sanitized L df) = sanitized L df"
proof -
  have f: "(\<lambda>d v. if d = Object then clean_cell L (if d = Object then clean_cell L v else v)
                    else (if d = Object then clean_cell L v else v)) =
           (\<lambda>d v. if d = Object then clean_cell L v else v)"
    by (intro ext) (simp add: clean_cell_idem)
  have "map (\<lambda>(d, v). if d = Object then clean_cell L v else v)
          (zip (dtypes df) (map (\<lambda>(d, v). if d = Object then clean_cell L v else v) (zip (dtypes df) row))) =
        map (\<lambda>(d, v). if d = Object then clean_cell L v else v) (zip (dtypes df) row)" for row
    using relabel_twice [of "\<lambda>d v. if d = Object then clean_cell L v else v" "dtypes df"
                            "\<lambda>d v. if d = Object then clean_cell L v else v" row]
    by (simp add: f)
  then show ?thesis
    by (simp add: sanitized_def comp_def normalize_label_idem)
qed

text \<open>
  Claim C9. Sanitising the table that sanitising returned gives an equal table
  (same labels, dtypes and cells). This holds for every well-formed table with
  distinct labels, so in particular for the tables without tags the claim speaks
  of: removing tags from a string that has had its tags removed changes nothing.
\<close>

theorem sanitize_twice_same_table:
  assumes "r < length h" and "wf_df (h ! r)" and "distinct_labels (h ! r)"
    and "sanitize_dataframe L r h = ((r1, errors1), h1)"
    and "sanitize_dataframe L r1 h1 = ((r2, errors2), h2)"
  shows "h2 ! r2 = h1 ! r1"
proof -
  let ?s = "sanitized L (h ! r)"
  from assms(4) sanitize_dataframe_eq [OF assms(1-3), of L]
  have r1: "r1 = length h" and h1: "h1 = h @ [?s]" by auto
  have at: "h1 ! r1 = ?s" by (simp add: r1 h1)
  have lt: "r1 < length h1" by (simp add: r1 h1)
  have wf: "wf_df (h1 ! r1)" using assms(2) by (simp add: at wf_sanitized)
  have di: "distinct_labels (h1 ! r1)" using assms(3) by (simp add: at distinct_labels_sanitized)
  from assms(5) sanitize_dataframe_eq [OF lt wf di, of L]
  have "h2 ! r2 = sanitized L (h1 ! r1)" by auto
  then show ?thesis by (simp add: at sanitized_idem)
qed

theorem sanitize_twice_witness:
  "fst (fst (sanitize_dataframe demo_lib 0 [no_dest_port_df])) = 1 \<and>
   fst (fst (sanitize_dataframe demo_lib 1 (snd (sanitize_dataframe demo_lib 0 [no_dest_port_df])))) = 2 \<and>
   snd (sanitize_dataframe demo_lib 1 (snd (sanitize_dataframe demo_lib 0 [no_dest_port_df]))) ! 2 =
   snd (sanitize_dataframe demo_lib 0 [no_dest_port_df]) ! 1"
proof -
  obtain r1 e1 h1 where a: "sanitize_dataframe demo_lib 0 [no_dest_port_df] = ((r1, e1), h1)"
    by (metis surj_pair)
  obtain r2 e2 h2 where b: "sanitize_dataframe demo_lib r1 h1 = ((r2, e2), h2)"
    by (metis surj_pair)
  have r1: "r1 = 1" and l1: "length h1 = 2"
    using a sanitize_dataframe_allocates [of 0 "[no_dest_port_df]" demo_lib] by auto
  have r2: "r2 = 2"
    using b sanitize_dataframe_allocates [of r1 h1 demo_lib] r1 l1 by auto
  have wf: "wf_df ([no_dest_port_df] ! 0)" by (simp add: wf_df_def no_dest_port_df_def)
  have di: "distinct_labels ([no_dest_port_df] ! 0)"
    by (simp add: distinct_labels_def no_dest_port_df_def normalize_label_def py_strip_def
                  py_lower_def py_isspace_def lower_char_def)
  have "h2 ! r2 = h1 ! r1"
    using sanitize_twice_same_table [of 0 "[no_dest_port_df]" demo_lib r1 e1 h1 r2 e2 h2, OF _ wf di a b]
    by simp
  then show ?thesis using a b r1 r2 by simp
qed

section \<open>The request\<close>

lemma call_serve_api_body_posts:
  assumes "SERVING_API env = Some u" and "url_prepares L u"
    and "dumps_error (JArray [input_data]) = None"
  shows "\<exists>result. call_serve_api_body L env srv input_data ps =
     (result, ps @ [\<lparr>url = u,
                     headers = [(''Authorization'', ''Bearer f'' @ format_opt (API_KEY env)),
                                (''Content-Type'', ''application/json'')],
                     json_arg = JArray [input_data]\<rparr>])"
  using assms by (simp add: call_serve_api_body_def Let_def split: option.splits)

text \<open>Nothing is sent when the request cannot be prepared.\<close>

lemma call_serve_api_body_not_sent:
  assumes "SERVING_API env = None \<or> (\<exists>u. SERVING_API env = Some u \<and> \<not> url_prepares L u)
           \<or> dumps_error (JArray [input_data]) \<noteq> None"
  shows "\<exists>e. call_serve_api_body L env srv input_data ps = (Inl e, ps)"
  using assms by (auto simp: call_serve_api_body_def Let_def split: option.splits)

text \<open>A record with an infinite duration, which the validator accepts, is not sent:
  the encoder raises.\<close>

lemma infinity_is_not_sent:
  "validate_numeric (PyFloat PosInf) \<and>
   call_serve_api_body demo_lib demo_env demo_server
     (JArray [JObject [(''flow_dur'', JScalar (PyFloat PosInf))]]) [] =
     (Inl InvalidJSONError, [])"
  by (simp add: validate_numeric_def call_serve_api_body_def demo_env_def demo_lib_def
                dumps_error_def)

text \<open>
  Claim C7, evaluated on the code: with the credential \<open>secret\<close>, the one request
  posted carries \<open>Content-Type: application/json\<close> and the header
  \<open>Authorization: Bearer fsecret\<close>, which is not \<open>Bearer secret\<close>: the f-string has
  a letter \<open>f\<close> in front of the placeholder.
\<close>

theorem authorization_header_has_stray_f:
  "map headers (snd (call_serve_api_body demo_lib demo_env demo_server (JArray []) [])) =
     [[(''Authorization'', ''Bearer fsecret''), (''Content-Type'', ''application/json'')]] \<and>
   ''Bearer fsecret'' \<noteq> ''Bearer '' @ ''secret''"
  by (simp add: call_serve_api_body_def demo_env_def demo_server_def demo_lib_def format_opt_def
                dumps_error_def)

section \<open>The row loop\<close>

lemma try_body_append:
  "try_body L idx row cs errors =
     (errors @ fst (try_body L idx row cs []), snd (try_body L idx row cs []))"
proof (induction cs arbitrary: errors)
  case Nil
  then show ?case by simp
next
  case (Cons ch cs)
  obtain field what ok where ch: "ch = (field, what, ok)" by (cases ch)
  show ?case
  proof (cases "row field")
    case (Inl e)
    then show ?thesis by (simp add: ch)
  next
    case (Inr v)
    show ?thesis
    proof (cases "ok v")
      case True
      with Inr Cons.IH [of errors] show ?thesis by (simp add: ch)
    next
      case False
      with Inr Cons.IH [of "errors @ [invalid_msg L what idx v]"]
        Cons.IH [of "[invalid_msg L what idx v]"]
      show ?thesis by (simp add: ch)
    qed
  qed
qed

lemma validate_row_append:
  "validate_row L cols idx row errors = errors @ validate_row L cols idx row []"
proof -
  obtain es x where e: "try_body L idx (row_getitem cols row) (row_checks L) [] = (es, x)"
    by (cases "try_body L idx (row_getitem cols row) (row_checks L) []")
  then have "try_body L idx (row_getitem cols row) (row_checks L) errors = (errors @ es, x)"
    using try_body_append [of L idx "row_getitem cols row" "row_checks L" errors] by simp
  with e show ?thesis by (simp add: validate_row_def split: option.splits)
qed

lemma iterrows_loop_concat:
  "iterrows_loop L cols ds idx rs errors =
     errors @ concat (map (\<lambda>(i, row). validate_row L cols i (iterrows_cells L ds row) [])
                          (zip [idx ..< idx + length rs] rs))"
proof (induction rs arbitrary: idx errors)
  case Nil
  then show ?case by simp
next
  case (Cons row rs)
  have "[idx ..< Suc idx + length rs] = idx # [Suc idx ..< Suc idx + length rs]"
    by (rule upt_conv_Cons) simp
  then have "[idx ..< idx + length (row # rs)] = idx # [Suc idx ..< Suc idx + length rs]"
    by simp
  then show ?case
    using Cons.IH [of "Suc idx" "validate_row L cols idx (iterrows_cells L ds row) errors"]
          validate_row_append [of L cols idx "iterrows_cells L ds row" errors]
    by simp
qed

lemma row_getitem_present:
  "length row = length cols \<Longrightarrow> field \<in> set cols \<Longrightarrow> \<exists>v. row_getitem cols row field = Inr v"
  by (cases "map_of (zip cols row) field") (simp_all add: row_getitem_def map_of_zip_is_None)

lemma row_getitem_absent:
  "field \<notin> set cols \<Longrightarrow> row_getitem cols row field = Inl (KeyError field)"
proof -
  assume "field \<notin> set cols"
  then have "field \<notin> fst ` set (zip cols row)" by (auto dest: set_zip_leftD)
  then have "map_of (zip cols row) field = None" by (simp add: map_of_eq_None_iff)
  then show ?thesis by (simp add: row_getitem_def)
qed

text \<open>The body stops at the first check whose field the row does not have.\<close>

lemma try_body_stops:
  assumes "length row = length cols"
  shows "\<not> list_all (present cols) cs \<Longrightarrow>
     try_body L idx (row_getitem cols row) cs errors =
       (fst (try_body L idx (row_getitem cols row) (takeWhile (present cols) cs) errors),
        Some (KeyError (fst (hd (dropWhile (present cols) cs)))))"
proof (induction cs arbitrary: errors)
  case Nil
  then show ?case by simp
next
  case (Cons ch cs)
  obtain field what ok where ch: "ch = (field, what, ok)" by (cases ch)
  show ?case
  proof (cases "present cols ch")
    case True
    then obtain v where v: "row_getitem cols row field = Inr v"
      using row_getitem_present [OF assms] by (auto simp: present_def ch)
    from True Cons.prems have "\<not> list_all (present cols) cs" by simp
    from Cons.IH [OF this] True v show ?thesis by (simp add: ch)
  next
    case False
    then have "row_getitem cols row field = Inl (KeyError field)"
      by (simp add: present_def ch row_getitem_absent)
    with False show ?thesis by (simp add: ch)
  qed
qed

lemma try_body_no_missing_msg:
  "\<forall>m\<in>set errors. \<not> is_missing_msg m \<Longrightarrow>
   \<forall>m\<in>set (fst (try_body L idx row cs errors)). \<not> is_missing_msg m"
proof (induction cs arbitrary: errors)
  case Nil
  then show ?case by simp
next
  case (Cons ch cs)
  obtain field what ok where ch: "ch = (field, what, ok)" by (cases ch)
  show ?case
  proof (cases "row field")
    case (Inl e)
    with Cons.prems show ?thesis by (simp add: ch)
  next
    case (Inr v)
    have "\<not> is_missing_msg (invalid_msg L what idx v)"
      by (simp add: is_missing_msg_def invalid_msg_def)
    with Cons.prems have "\<forall>m\<in>set (if ok v then errors else errors @ [invalid_msg L what idx v]).
        \<not> is_missing_msg m" by simp
    from Cons.IH [OF this] Inr show ?thesis by (simp add: ch)
  qed
qed

lemma is_missing_msg_missing: "is_missing_msg (missing_msg e)"
  by (simp add: is_missing_msg_def missing_msg_def)

lemma validate_row_missing:
  assumes "length row = length cols" and "\<not> list_all (present cols) (row_checks L)"
  shows "validate_row L cols idx row [] =
           fst (try_body L idx (row_getitem cols row) (takeWhile (present cols) (row_checks L)) [])
           @ [missing_msg (KeyError (fst (hd (dropWhile (present cols) (row_checks L)))))]"
    and "length (filter is_missing_msg (validate_row L cols idx row [])) = 1"
proof -
  show a: "validate_row L cols idx row [] =
           fst (try_body L idx (row_getitem cols row) (takeWhile (present cols) (row_checks L)) [])
           @ [missing_msg (KeyError (fst (hd (dropWhile (present cols) (row_checks L)))))]"
    by (simp add: validate_row_def try_body_stops [OF assms])
  have "filter is_missing_msg
          (fst (try_body L idx (row_getitem cols row) (takeWhile (present cols) (row_checks L)) [])) = []"
    using try_body_no_missing_msg [of "[]" L idx "row_getitem cols row"]
    by (simp add: filter_empty_conv)
  then show "length (filter is_missing_msg (validate_row L cols idx row [])) = 1"
    by (simp add: a is_missing_msg_missing)
qed

lemma row_checks_fields: "set (map fst (row_checks L)) = set REQUIRED_COLUMNS"
  by (auto simp: row_checks_def numeric_fields_def REQUIRED_COLUMNS_def)

lemma first_failing:
  "\<not> list_all P xs \<Longrightarrow> hd (dropWhile P xs) \<in> set xs \<and> \<not> P (hd (dropWhile P xs))"
proof -
  assume "\<not> list_all P xs"
  then have ne: "dropWhile P xs \<noteq> []" by (auto simp: list_all_iff)
  then have "hd (dropWhile P xs) \<in> set (dropWhile P xs)" by simp
  then have "hd (dropWhile P xs) \<in> set xs" by (rule set_dropWhileD)
  with hd_dropWhile [OF ne] show ?thesis by simp
qed

lemma length_iterrows_cells: "length (iterrows_cells L ds row) = length row"
  by (simp add: iterrows_cells_def)

text \<open>
  Claim C5, as amended. Take a well-formed table, its cells of the dtype of their
  column and its labels distinct, in which a required field is absent, and let
  \<open>field\<close> be the first such field in the order of the checks. Then (1) the error
  list is the concatenation, row by row, of what the row loop appends for that row
  alone; (2) for every row, what is appended is what the checks before \<open>field\<close>
  append, followed by the one message \<open>Missing required column: 'field'\<close>, the
  label in single quotes as the text of a \<open>KeyError\<close> has it, and exactly one
  message of that form is appended: no check behind \<open>field\<close> is run; (3) the table
  returned has the normalised labels and as many rows, and in every row every cell
  of a column of objects is the string of the input cell with its tags removed and
  every other cell is the input cell.
\<close>

theorem missing_field_short_circuits:
  assumes "r < length h" and "wf_df (h ! r)" and "conforming (h ! r)"
    and "distinct_labels (h ! r)"
    and "sanitize_dataframe L r h = ((r', errors), h')"
    and "cols = map normalize_label (columns (h ! r))"
    and "\<not> list_all (present cols) (row_checks L)"
    and "field = fst (hd (dropWhile (present cols) (row_checks L)))"
  shows "field \<in> set REQUIRED_COLUMNS \<and> field \<notin> set cols \<and>
         errors = concat (map (\<lambda>(i, row).
                      validate_row L cols i (iterrows_cells L (dtypes (h ! r)) row) [])
                    (zip [0 ..< length (rows (h ! r))] (rows (h ! r)))) \<and>
         (\<forall>i < length (rows (h ! r)).
            validate_row L cols i (iterrows_cells L (dtypes (h ! r)) (rows (h ! r) ! i)) [] =
              fst (try_body L i
                     (row_getitem cols (iterrows_cells L (dtypes (h ! r)) (rows (h ! r) ! i)))
                     (takeWhile (present cols) (row_checks L)) [])
              @ [''Missing required column: '' @ [CHR 0x27] @ field @ [CHR 0x27]] \<and>
            length (filter is_missing_msg
              (validate_row L cols i (iterrows_cells L (dtypes (h ! r)) (rows (h ! r) ! i)) [])) = 1) \<and>
         columns (h' ! r') = cols \<and> length (rows (h' ! r')) = length (rows (h ! r)) \<and>
         (\<forall>i < length (rows (h ! r)). \<forall>j < length (columns (h ! r)).
            rows (h' ! r') ! i ! j =
              (if dtypes (h ! r) ! j = Object
               then PyStr (re_sub_tags (py_str L (rows (h ! r) ! i ! j)))
               else rows (h ! r) ! i ! j))"
proof -
  let ?ds = "dtypes (h ! r)"
  from first_failing [OF assms(7)]
  have "hd (dropWhile (present cols) (row_checks L)) \<in> set (row_checks L)"
    and "\<not> present cols (hd (dropWhile (present cols) (row_checks L)))" by simp_all
  then have f: "field \<in> set REQUIRED_COLUMNS" "field \<notin> set cols"
    using row_checks_fields [of L] by (auto simp: assms(8) present_def)
  from assms(5) sanitize_dataframe_eq [OF assms(1,2,4), of L]
  have errs: "errors = iterrows_loop L cols ?ds 0 (rows (h ! r)) []"
    and tab: "h' ! r' = sanitized L (h ! r)" by (auto simp: assms(6))
  have e: "errors = concat (map (\<lambda>(i, row). validate_row L cols i (iterrows_cells L ?ds row) [])
                              (zip [0 ..< length (rows (h ! r))] (rows (h ! r))))"
    by (simp add: errs iterrows_loop_concat)
  have rowwise: "validate_row L cols i (iterrows_cells L ?ds (rows (h ! r) ! i)) [] =
              fst (try_body L i (row_getitem cols (iterrows_cells L ?ds (rows (h ! r) ! i)))
                     (takeWhile (present cols) (row_checks L)) [])
              @ [''Missing required column: '' @ [CHR 0x27] @ field @ [CHR 0x27]] \<and>
            length (filter is_missing_msg
              (validate_row L cols i (iterrows_cells L ?ds (rows (h ! r) ! i)) [])) = 1"
    if "i < length (rows (h ! r))" for i
  proof -
    from that have "rows (h ! r) ! i \<in> set (rows (h ! r))" by simp
    then have len: "length (iterrows_cells L ?ds (rows (h ! r) ! i)) = length cols"
      using assms(2) by (simp add: wf_df_def list_all_iff assms(6) length_iterrows_cells)
    from validate_row_missing [OF len assms(7), of i] show ?thesis
      by (simp add: assms(8) missing_msg_def py_repr_str_def)
  qed
  have shape: "columns (h' ! r') = cols" "length (rows (h' ! r')) = length (rows (h ! r))"
    by (simp_all add: tab sanitized_def assms(6))
  have cells: "rows (h' ! r') ! i ! j =
              (if dtypes (h ! r) ! j = Object
               then PyStr (re_sub_tags (py_str L (rows (h ! r) ! i ! j)))
               else rows (h ! r) ! i ! j)"
    if "i < length (rows (h ! r))" and "j < length (columns (h ! r))" for i j
    using sanitized_cell [OF assms(2) that, of L] by (simp add: tab clean_cell_def)
  from f e rowwise shape cells show ?thesis by blast
qed

theorem missing_field_witness:
  "snd (fst (sanitize_dataframe demo_lib 0 [no_dest_port_df])) =
     [''Missing required column: '' @ [CHR 0x27] @ ''dest_port'' @ [CHR 0x27],
      ''Invalid source IP at row 1: 999.1.1.1'',
      ''Missing required column: '' @ [CHR 0x27] @ ''dest_port'' @ [CHR 0x27]] \<and>
   length (filter is_missing_msg
     (validate_row demo_lib [''src_ip'', ''dest_ip'', ''src_port'', ''note''] 1
        [PyStr ''999.1.1.1'', PyStr ''10.0.0.5'', PyInt 80, PyStr ''x''] [])) = 1 \<and>
   rows (snd (sanitize_dataframe demo_lib 0 [no_dest_port_df]) ! 1) ! 0 ! 3 = PyStr ''ok'' \<and>
   rows (snd (sanitize_dataframe demo_lib 0 [no_dest_port_df]) ! 1) ! 1 ! 2 = PyInt 80"
proof -
  let ?cols = "[''src_ip'', ''dest_ip'', ''src_port'', ''note'']"
  obtain r' errors h' where e: "sanitize_dataframe demo_lib 0 [no_dest_port_df] = ((r', errors), h')"
    by (metis surj_pair)
  have r': "r' = 1"
    using e sanitize_dataframe_allocates [of 0 "[no_dest_port_df]" demo_lib] by auto
  have wf: "wf_df ([no_dest_port_df] ! 0)" by (simp add: wf_df_def no_dest_port_df_def)
  have co: "conforming ([no_dest_port_df] ! 0)" by (simp add: conforming_def no_dest_port_df_def)
  have di: "distinct_labels ([no_dest_port_df] ! 0)"
    by (simp add: distinct_labels_def no_dest_port_df_def normalize_label_def py_strip_def
                  py_lower_def py_isspace_def lower_char_def)
  have cols: "?cols = map normalize_label (columns ([no_dest_port_df] ! 0))"
    by (simp add: no_dest_port_df_def normalize_label_def py_strip_def
                  py_lower_def py_isspace_def lower_char_def)
  have ab: "\<not> list_all (present ?cols) (row_checks demo_lib)"
    by (simp add: row_checks_def present_def)
  have fi: "''dest_port'' = fst (hd (dropWhile (present ?cols) (row_checks demo_lib)))"
    by (simp add: row_checks_def present_def)
  note t = missing_field_short_circuits [of 0 "[no_dest_port_df]" demo_lib r' errors h' ?cols "''dest_port''",
      OF _ wf co di e cols ab fi]
  have it: "iterrows_cells demo_lib [Object, Object, Int64, Object]
              [PyStr ''999.1.1.1'', PyStr ''10.0.0.5'', PyInt 80, PyStr ''x''] =
            [PyStr ''999.1.1.1'', PyStr ''10.0.0.5'', PyInt 80, PyStr ''x'']"
    by (simp add: iterrows_cells_def common_dtype_def)
  have one: "length (filter is_missing_msg
     (validate_row demo_lib ?cols 1 [PyStr ''999.1.1.1'', PyStr ''10.0.0.5'', PyInt 80, PyStr ''x''] [])) = 1"
    using t [THEN conjunct2, THEN conjunct2, THEN conjunct2, THEN conjunct1, rule_format, of 1, THEN conjunct2]
    by (simp add: no_dest_port_df_def it)
  note c = t [THEN conjunct2, THEN conjunct2, THEN conjunct2, THEN conjunct2, THEN conjunct2,
              THEN conjunct2, rule_format]
  have a: "rows (h' ! r') ! 0 ! 3 = PyStr ''ok''"
    using c [of 0 3] by (simp add: no_dest_port_df_def)
  have b: "rows (h' ! r') ! 1 ! 2 = PyInt 80"
    using c [of 1 2] by (simp add: no_dest_port_df_def)
  have ev: "snd (fst (sanitize_dataframe demo_lib 0 [no_dest_port_df])) =
     [''Missing required column: '' @ [CHR 0x27] @ ''dest_port'' @ [CHR 0x27],
      ''Invalid source IP at row 1: 999.1.1.1'',
      ''Missing required column: '' @ [CHR 0x27] @ ''dest_port'' @ [CHR 0x27]]"
    by code_simp
  from one ev a b show ?thesis by (simp add: e r')
qed

text \<open>
  The message the code appends has the label in quotes; the text the claim gives,
  without them, is not in the error list.
\<close>

theorem missing_field_counterexample:
  "snd (fst (sanitize_dataframe demo_lib 0 [no_dest_port_df])) =
     [''Missing required column: '' @ [CHR 0x27] @ ''dest_port'' @ [CHR 0x27],
      ''Invalid source IP at row 1: 999.1.1.1'',
      ''Missing required column: '' @ [CHR 0x27] @ ''dest_port'' @ [CHR 0x27]] \<and>
   ''Missing required column: dest_port''
     \<notin> set (snd (fst (sanitize_dataframe demo_lib 0 [no_dest_port_df])))"
proof -
  have ev: "snd (fst (sanitize_dataframe demo_lib 0 [no_dest_port_df])) =
     [''Missing required column: '' @ [CHR 0x27] @ ''dest_port'' @ [CHR 0x27],
      ''Invalid source IP at row 1: 999.1.1.1'',
      ''Missing required column: '' @ [CHR 0x27] @ ''dest_port'' @ [CHR 0x27]]"
    by code_simp
  show ?thesis unfolding ev by simp
qed

text \<open>In a table of integers only the row loop is handed numpy integers, which are
  not instances of \<open>int\<close>: a port of 80 is reported.\<close>

lemma all_int_rows_seen_as_numpy:
  "snd (fst (sanitize_dataframe demo_lib 0 [all_int_df])) =
     [''Invalid source IP at row 0: 5'',
      ''Invalid destination IP at row 0: 6'',
      ''Invalid source port at row 0: 80'',
      ''Missing required column: '' @ [CHR 0x27] @ ''dest_port'' @ [CHR 0x27]]"
  by code_simp

section \<open>An upload of valid rows\<close>

lemma spec_port_validate: "spec_port v \<Longrightarrow> validate_port v"
  by (cases v rule: finite_number.cases)
     (simp_all add: spec_port_def validate_port_def PORT_MIN_def PORT_MAX_def)

lemma spec_counter_validate: "spec_counter v \<Longrightarrow> validate_numeric v"
  by (cases v rule: finite_number.cases) (simp_all add: spec_counter_def validate_numeric_def)

lemma spec_address_validate: "spec_address L v \<Longrightarrow> validate_ip L (py_str L v)"
  by (cases v) (simp_all add: validate_ip_def)

lemma spec_timestamp_validate: "spec_timestamp L v \<Longrightarrow> validate_timestamp L (py_str L v)"
  by (cases v) (auto simp: validate_timestamp_def TIMESTAMP_FORMATS_def)

lemma try_body_spec_field:
  assumes "spec_field cols row field P" and "\<And>v. P v \<Longrightarrow> ok v"
  shows "try_body L idx (row_getitem cols row) ((field, what, ok) # rest) errors =
         try_body L idx (row_getitem cols row) rest errors"
  using assms
  by (cases "map_of (zip cols row) field") (simp_all add: spec_field_def row_getitem_def)

lemma validate_row_valid:
  assumes "spec_record_valid L cols row"
  shows "validate_row L cols idx row errors = errors"
proof -
  note a = try_body_spec_field [where P = "spec_address L", OF _ spec_address_validate]
  note p = try_body_spec_field [where P = spec_port, OF _ spec_port_validate]
  note t = try_body_spec_field [where P = "spec_timestamp L", OF _ spec_timestamp_validate]
  note c = try_body_spec_field [where P = spec_counter, OF _ spec_counter_validate]
  from assms show ?thesis
    by (simp add: validate_row_def row_checks_def numeric_fields_def spec_record_valid_def a p t c
             del: try_body.simps(2))
qed

lemma iterrows_cells_objects: "Object \<in> set ds \<Longrightarrow> iterrows_cells L ds row = row"
proof -
  assume "Object \<in> set ds"
  then have "common_dtype ds = Object"
    by (auto simp: common_dtype_def list_all_iff)
  then show ?thesis by (simp add: iterrows_cells_def map_idI)
qed

lemma iterrows_loop_valid:
  "Object \<in> set ds \<Longrightarrow> \<forall>row\<in>set rs. spec_record_valid L cols row \<Longrightarrow>
   iterrows_loop L cols ds idx rs errors = errors"
  by (induction rs arbitrary: idx) (simp_all add: validate_row_valid iterrows_cells_objects)

text \<open>A record with a valid address has a column of text.\<close>

lemma conforms_str: "cell_conforms d (PyStr s) \<Longrightarrow> d = Object"
  by (cases d) simp_all

lemma valid_record_has_object:
  assumes "spec_record_valid L cols row" and "length row = length cols"
    and "length ds = length cols"
    and "list_all (\<lambda>(d, v). cell_conforms d v) (zip ds row)"
  shows "Object \<in> set ds"
proof -
  from assms(1) obtain v where v: "map_of (zip cols row) ''src_ip'' = Some v" "spec_address L v"
    by (auto simp: spec_record_valid_def spec_field_def split: option.splits)
  then obtain s where s: "v = PyStr s" by (cases v) simp_all
  from v(1) have "v \<in> set row" by (meson map_of_SomeD set_zip_rightD)
  then obtain j where j: "j < length row" "row ! j = v" by (auto simp: in_set_conv_nth)
  with assms(2,3) have "(ds ! j, v) \<in> set (zip ds row)" by (auto simp: set_zip)
  with assms(4) have "cell_conforms (ds ! j) v" by (auto simp: list_all_iff)
  with s have "ds ! j = Object" by (simp add: conforms_str)
  with j(1) assms(2,3) show ?thesis by (metis nth_mem)
qed

subsection \<open>The payload\<close>

lemma box_native_conforms: "cell_conforms d v \<Longrightarrow> box_native v = v"
  by (cases "(d, v)" rule: cell_conforms.cases) simp_all

lemma dumps_conforms: "cell_conforms d v \<Longrightarrow> json_number_ok v \<Longrightarrow> cell_dumps_error v = None"
  by (cases "(d, v)" rule: cell_conforms.cases; cases v rule: json_number_ok.cases) simp_all

lemma first_dumps_error_None:
  "\<forall>v\<in>set vs. cell_dumps_error v = None \<Longrightarrow> first_dumps_error vs = None"
  by (induction vs) simp_all

lemma boxed_cleaned:
  assumes "list_all (\<lambda>(d, v). cell_conforms d v) (zip ds row)"
  shows "map box_native (map (\<lambda>(d, v). if d = Object then clean_cell L v else v) (zip ds row)) =
         map (\<lambda>(d, v). if d = Object then PyStr (re_sub_tags (py_str L v)) else v) (zip ds row)"
  using assms by (auto simp: list_all_iff clean_cell_def box_native_conforms)

lemma record_of_zip: "map (\<lambda>(k, v). (k, JScalar v)) (zip ks vs) = zip ks (map JScalar vs)"
  by (simp add: zip_map2)

lemma payload_of_sanitized:
  assumes "conforming df"
  shows "payload_of (sanitized L df) =
     JArray (map (\<lambda>row. JObject (zip (map normalize_label (columns df))
                    (map JScalar
                       (map (\<lambda>(d, v). if d = Object then PyStr (re_sub_tags (py_str L v)) else v)
                            (zip (dtypes df) row)))))
                 (rows df))"
proof -
  let ?ks = "map normalize_label (columns df)"
  let ?g = "\<lambda>(d, v). if d = Object then clean_cell L v else v"
  let ?g' = "\<lambda>(d, v). if d = Object then PyStr (re_sub_tags (py_str L v)) else v"
  have per: "JObject (map (\<lambda>(k, v). (k, JScalar v))
                          (zip ?ks (map box_native (map ?g (zip (dtypes df) row))))) =
             JObject (zip ?ks (map JScalar (map ?g' (zip (dtypes df) row))))"
    if "row \<in> set (rows df)" for row
  proof -
    have "list_all (\<lambda>(d, v). cell_conforms d v) (zip (dtypes df) row)"
      using assms that by (simp add: conforming_def list_all_iff)
    then show ?thesis by (simp only: boxed_cleaned record_of_zip)
  qed
  have "payload_of (sanitized L df) =
        JArray (map (\<lambda>row. JObject (map (\<lambda>(k, v). (k, JScalar v))
                          (zip ?ks (map box_native (map ?g (zip (dtypes df) row)))))) (rows df))"
    by (simp add: payload_of_def to_dict_records_def sanitized_def comp_def)
  also have "map (\<lambda>row. JObject (map (\<lambda>(k, v). (k, JScalar v))
                          (zip ?ks (map box_native (map ?g (zip (dtypes df) row)))))) (rows df) =
             map (\<lambda>row. JObject (zip ?ks (map JScalar (map ?g' (zip (dtypes df) row))))) (rows df)"
    by (rule map_cong [OF refl]) (rule per)
  finally show ?thesis .
qed

lemma leaves_record: "set (json_leaves (JObject (zip ks (map JScalar vs)))) \<subseteq> set vs"
  by (auto simp: in_set_zip)

lemma payload_dumps:
  assumes "conforming df" and "\<forall>row\<in>set (rows df). \<forall>v\<in>set row. json_number_ok v"
  shows "dumps_error (JArray [payload_of (sanitized L df)]) = None"
proof -
  have cellok: "cell_dumps_error c = None"
    if row: "row \<in> set (rows df)"
      and c: "c \<in> set (map (\<lambda>(d, v). if d = Object then PyStr (re_sub_tags (py_str L v)) else v)
                         (zip (dtypes df) row))" for row c
  proof -
    from c obtain d v where dv: "(d, v) \<in> set (zip (dtypes df) row)"
      and ceq: "c = (if d = Object then PyStr (re_sub_tags (py_str L v)) else v)" by auto
    from dv row assms(1) have "cell_conforms d v" by (auto simp: conforming_def list_all_iff)
    moreover from dv row assms(2) have "json_number_ok v" by (auto dest: set_zip_rightD)
    ultimately show ?thesis using ceq by (simp add: dumps_conforms)
  qed
  have "\<forall>c\<in>set (json_leaves (JArray [payload_of (sanitized L df)])). cell_dumps_error c = None"
  proof
    fix c assume "c \<in> set (json_leaves (JArray [payload_of (sanitized L df)]))"
    then obtain row where row: "row \<in> set (rows df)"
      and "c \<in> set (json_leaves (JObject (zip (map normalize_label (columns df))
                    (map JScalar
                       (map (\<lambda>(d, v). if d = Object then PyStr (re_sub_tags (py_str L v)) else v)
                            (zip (dtypes df) row))))))"
      by (auto simp: payload_of_sanitized [OF assms(1)] simp del: json_leaves.simps(3))
    with leaves_record have "c \<in> set (map (\<lambda>(d, v). if d = Object then PyStr (re_sub_tags (py_str L v)) else v)
                         (zip (dtypes df) row))" by blast
    with row show "cell_dumps_error c = None" by (rule cellok)
  qed
  then show ?thesis by (simp only: dumps_error_def first_dumps_error_None)
qed

text \<open>What a guarded call does when the limiter has room and the request can be
  prepared.\<close>

lemma call_serve_api_admitted:
  assumes "int (length (evict now (time_window rl) (calls rl))) < max_calls rl"
    and "SERVING_API env = Some u" and "url_prepares L u"
    and "dumps_error (JArray [input_data]) = None"
  shows "\<exists>result. call_serve_api L env srv now input_data (rl, ps) =
     (Inr result, rl\<lparr>calls := evict now (time_window rl) (calls rl) @ [now]\<rparr>,
      ps @ [\<lparr>url = u,
              headers = [(''Authorization'', ''Bearer f'' @ format_opt (API_KEY env)),
                         (''Content-Type'', ''application/json'')],
              json_arg = JArray [input_data]\<rparr>])"
proof -
  obtain result where
    "call_serve_api_body L env srv input_data ps =
       (result, ps @ [\<lparr>url = u,
                       headers = [(''Authorization'', ''Bearer f'' @ format_opt (API_KEY env)),
                                  (''Content-Type'', ''application/json'')],
                       json_arg = JArray [input_data]\<rparr>])"
    using call_serve_api_body_posts [OF assms(2-4)] by blast
  then show ?thesis
    by (simp add: call_serve_api_def wrapper_def critical_section_admits [OF assms(1)])
qed

lemma upload_of_valid_rows:
  assumes "r < length (tables w)" and "wf_df (tables w ! r)" and "conforming (tables w ! r)"
    and "distinct_labels (tables w ! r)"
    and "rows (tables w ! r) \<noteq> []" and "length (rows (tables w ! r)) \<le> 100"
    and "set REQUIRED_COLUMNS \<subseteq> set (map normalize_label (columns (tables w ! r)))"
    and "\<forall>row\<in>set (rows (tables w ! r)).
           spec_record_valid L (map normalize_label (columns (tables w ! r))) row"
    and "\<forall>row\<in>set (rows (tables w ! r)). \<forall>v\<in>set row. json_number_ok v"
    and "SERVING_API env = Some u" and "url_prepares L u"
    and "int (length (evict now (time_window (limiter w)) (calls (limiter w)))) < max_calls (limiter w)"
    and "handle_upload L env srv now r w = ((r', errors, out), w')"
  shows "errors = [] \<and>
         tables w' ! r' = sanitized L (tables w ! r) \<and>
         posted w' = posted w @
           [\<lparr>url = u,
             headers = [(''Authorization'', ''Bearer f'' @ format_opt (API_KEY env)),
                        (''Content-Type'', ''application/json'')],
             json_arg = JArray [payload_of (sanitized L (tables w ! r))]\<rparr>]"
proof -
  let ?df = "tables w ! r"
  let ?h = "tables w @ [sanitized L ?df]"
  let ?n = "length (tables w)"
  obtain row0 where row0: "row0 \<in> set (rows ?df)" using assms(5) by (cases "rows ?df") auto
  have obj: "Object \<in> set (dtypes ?df)"
  proof (rule valid_record_has_object)
    show "spec_record_valid L (map normalize_label (columns ?df)) row0" using assms(8) row0 by blast
    show "length row0 = length (map normalize_label (columns ?df))"
      using assms(2) row0 by (simp add: wf_df_def list_all_iff)
    show "length (dtypes ?df) = length (map normalize_label (columns ?df))"
      using assms(2) by (simp add: wf_df_def)
    show "list_all (\<lambda>(d, v). cell_conforms d v) (zip (dtypes ?df) row0)"
      using assms(3) row0 by (simp add: conforming_def list_all_iff)
  qed
  have san: "sanitize_dataframe L r (tables w) = ((?n, []), ?h)"
    using sanitize_dataframe_eq [OF assms(1,2,4), of L] iterrows_loop_valid [OF obj assms(8)]
    by simp
  have at: "?h ! ?n = sanitized L ?df" by simp
  have cols: "columns (sanitized L ?df) = map normalize_label (columns ?df)"
    and nrows: "length (rows (sanitized L ?df)) = length (rows ?df)"
    by (simp_all add: sanitized_def)
  have nomiss: "filter (\<lambda>col. py_lower col \<notin> set (map py_lower (columns (sanitized L ?df))))
                  REQUIRED_COLUMNS = []"
    using assms(7) by (auto simp: filter_empty_conv cols)
  let ?req = "\<lparr>url = u,
              headers = [(''Authorization'', ''Bearer f'' @ format_opt (API_KEY env)),
                         (''Content-Type'', ''application/json'')],
              json_arg = JArray [payload_of (sanitized L ?df)]\<rparr>"
  obtain result where call:
    "call_serve_api L env srv now (payload_of (sanitized L ?df)) (limiter w, posted w) =
       (Inr result, (limiter w)\<lparr>calls := evict now (time_window (limiter w)) (calls (limiter w)) @ [now]\<rparr>,
        posted w @ [?req])"
    using call_serve_api_admitted [OF assms(12,10,11) payload_dumps [OF assms(3,9)]] by blast
  have small: "length (rows (sanitized L ?df)) \<le> 100" using assms(6) nrows by simp
  have "\<exists>out rl. handle_upload L env srv now r w =
          ((?n, [], out), w\<lparr>tables := ?h, limiter := rl, posted := posted w @ [?req]\<rparr>)"
    apply (simp only: handle_upload_def san Let_def prod.case at nomiss)
    apply (simp add: small call)
    apply blast
    done
  with assms(13) have "errors = []" and "r' = ?n" and "tables w' = ?h"
    and "posted w' = posted w @ [?req]"
    by auto
  then show ?thesis by simp
qed

subsection \<open>The example upload\<close>

lemma five_rows_labels:
  "map normalize_label (columns five_rows_df) =
     [''timestamp'', ''flow_dur'', ''src_ip'', ''dest_ip'', ''dest_port'', ''src_port'',
      ''fwd_bytes'', ''bwd_bytes'', ''total_bwd_pkts'', ''total_fwd_pkts'', ''note'']"
  by (simp add: five_rows_df_def normalize_label_def py_strip_def py_lower_def py_isspace_def
                lower_char_def char_of_eq_iff)

lemma five_rows_wf: "wf_df five_rows_df"
  by (simp add: wf_df_def five_rows_df_def)

lemma five_rows_conforming: "conforming five_rows_df"
  by (simp add: conforming_def five_rows_df_def)

lemma five_rows_distinct: "distinct_labels five_rows_df"
  by (simp add: distinct_labels_def five_rows_labels)

lemma five_rows_required:
  "set REQUIRED_COLUMNS \<subseteq> set (map normalize_label (columns five_rows_df))"
  by (simp add: five_rows_labels REQUIRED_COLUMNS_def)

lemma five_rows_valid:
  "\<forall>row\<in>set (rows five_rows_df).
     spec_record_valid demo_lib (map normalize_label (columns five_rows_df)) row"
  unfolding five_rows_labels
  by (simp add: five_rows_df_def spec_record_valid_def spec_field_def spec_port_def
                spec_counter_def demo_lib_def)

lemma five_rows_json_ok: "\<forall>row\<in>set (rows five_rows_df). \<forall>v\<in>set row. json_number_ok v"
  by (simp add: five_rows_df_def)

lemma five_rows_count: "length (rows five_rows_df) = 5"
  by (simp add: five_rows_df_def)

lemma demo_limiter_admits:
  "int (length (evict 0 (time_window api_rate_limiter) (calls api_rate_limiter)))
     < max_calls api_rate_limiter"
  by (simp add: api_rate_limiter_def RateLimiter_init_def)

lemma demo_url:
  "SERVING_API demo_env = Some ''https://serving.example/classify'' \<and>
   url_prepares demo_lib ''https://serving.example/classify''"
  by (simp add: demo_env_def demo_lib_def)

lemma demo_upload_reference:
  "fst (fst (handle_upload demo_lib demo_env demo_server 0 0 demo_world)) = 1"
proof -
  have san: "sanitize_dataframe demo_lib 0 (tables demo_world) =
               ((1, iterrows_loop demo_lib (map normalize_label (columns five_rows_df))
                      (dtypes five_rows_df) 0 (rows five_rows_df) []),
                [five_rows_df, sanitized demo_lib five_rows_df])"
    using sanitize_dataframe_eq [of 0 "tables demo_world" demo_lib]
          five_rows_wf five_rows_distinct
    by (simp add: demo_world_def)
  show ?thesis
    by (auto simp: handle_upload_def san Let_def split: if_splits prod.splits)
qed

text \<open>
  Claim C1, as amended. Take a well-formed table of five rows, its cells of the
  dtype of their column, whose normalised labels are distinct and include the ten
  required fields, every record valid by the rules of the spec and no cell an
  infinity or NaN; let it be handled at a time when the limiter has room, with an
  endpoint URL \<open>requests\<close> accepts. Then the error list is empty; the table bound
  to \<open>df\<close> has the normalised labels and five rows, the cells of its columns of
  objects being the strings of the input cells with their tags removed and the other
  cells the input cells; and exactly one request is added to the log of requests
  sent. Its \<open>json\<close> argument is a one-element array whose only element is the array
  of the five records, each the object of the labels and cells of its row; it is
  not itself an array of five objects.
\<close>

theorem five_valid_rows_one_call:
  assumes "r < length (tables w)" and "wf_df (tables w ! r)" and "conforming (tables w ! r)"
    and "distinct_labels (tables w ! r)"
    and "length (rows (tables w ! r)) = 5"
    and "set REQUIRED_COLUMNS \<subseteq> set (map normalize_label (columns (tables w ! r)))"
    and "\<forall>row\<in>set (rows (tables w ! r)).
           spec_record_valid L (map normalize_label (columns (tables w ! r))) row"
    and "\<forall>row\<in>set (rows (tables w ! r)). \<forall>v\<in>set row. json_number_ok v"
    and "SERVING_API env = Some u" and "url_prepares L u"
    and "int (length (evict now (time_window (limiter w)) (calls (limiter w)))) < max_calls (limiter w)"
    and "handle_upload L env srv now r w = ((r', errors, out), w')"
  shows "errors = [] \<and>
         columns (tables w' ! r') = map normalize_label (columns (tables w ! r)) \<and>
         length (rows (tables w' ! r')) = 5 \<and>
         rows (tables w' ! r') =
           map (\<lambda>row. map (\<lambda>(d, v). if d = Object then PyStr (re_sub_tags (py_str L v)) else v)
                           (zip (dtypes (tables w ! r)) row))
               (rows (tables w ! r)) \<and>
         (\<exists>request recs. posted w' = posted w @ [request] \<and> url request = u \<and>
            json_arg request = JArray [JArray recs] \<and>
            length recs = 5 \<and> list_all is_object recs \<and>
            recs = map (\<lambda>row. JObject (zip (map normalize_label (columns (tables w ! r)))
                     (map JScalar
                        (map (\<lambda>(d, v). if d = Object then PyStr (re_sub_tags (py_str L v)) else v)
                             (zip (dtypes (tables w ! r)) row)))))
                   (rows (tables w ! r)) \<and>
            \<not> is_array_of_objects 5 (json_arg request))"
proof -
  let ?df = "tables w ! r"
  let ?recs = "map (\<lambda>row. JObject (zip (map normalize_label (columns ?df))
                     (map JScalar
                        (map (\<lambda>(d, v). if d = Object then PyStr (re_sub_tags (py_str L v)) else v)
                             (zip (dtypes ?df) row)))))
                   (rows ?df)"
  have ne: "rows ?df \<noteq> []" and le: "length (rows ?df) \<le> 100" using assms(5) by auto
  from upload_of_valid_rows [OF assms(1-4) ne le assms(6-12)]
  have e: "errors = []" and t: "tables w' ! r' = sanitized L ?df"
    and p: "posted w' = posted w @
           [\<lparr>url = u,
             headers = [(''Authorization'', ''Bearer f'' @ format_opt (API_KEY env)),
                        (''Content-Type'', ''application/json'')],
             json_arg = JArray [payload_of (sanitized L ?df)]\<rparr>]"
    by simp_all
  have pay: "payload_of (sanitized L ?df) = JArray ?recs"
    by (rule payload_of_sanitized [OF assms(3)])
  have tab: "columns (tables w' ! r') = map normalize_label (columns ?df)"
    "length (rows (tables w' ! r')) = 5"
    "rows (tables w' ! r') =
           map (\<lambda>row. map (\<lambda>(d, v). if d = Object then PyStr (re_sub_tags (py_str L v)) else v)
                           (zip (dtypes ?df) row)) (rows ?df)"
    using assms(5) unfolding t sanitized_def clean_cell_def by simp_all
  have shape: "length ?recs = 5" "list_all is_object ?recs"
    using assms(5) by (simp_all add: list_all_iff)
  have notfive: "\<not> is_array_of_objects 5 (JArray [JArray ?recs])" by simp
  from e tab p pay shape notfive show ?thesis by simp
qed

theorem five_valid_rows_witness:
  "fst (snd (fst (handle_upload demo_lib demo_env demo_server 0 0 demo_world))) = [] \<and>
   length (rows (tables (snd (handle_upload demo_lib demo_env demo_server 0 0 demo_world)) ! 1)) = 5 \<and>
   map json_arg (posted (snd (handle_upload demo_lib demo_env demo_server 0 0 demo_world))) =
   [JArray [JArray [
           JObject [(''timestamp'', JScalar (PyStr ''2024-01-15 10:30:00'')),
             (''flow_dur'', JScalar (PyFloat (Finite (3 / 2)))),
             (''src_ip'', JScalar (PyStr ''192.168.1.10'')),
             (''dest_ip'', JScalar (PyStr ''10.0.0.5'')),
             (''dest_port'', JScalar (PyFloat (Finite 443))),
             (''src_port'', JScalar (PyInt 51234)), (''fwd_bytes'', JScalar (PyInt 1200)),
             (''bwd_bytes'', JScalar (PyInt 3400)), (''total_bwd_pkts'', JScalar (PyInt 12)),
             (''total_fwd_pkts'', JScalar (PyInt 10)), (''note'', JScalar (PyStr ''web''))],
           JObject [(''timestamp'', JScalar (PyStr ''2024-01-15T10:30:00'')),
             (''flow_dur'', JScalar (PyFloat (Finite 0))),
             (''src_ip'', JScalar (PyStr ''10.0.0.5'')),
             (''dest_ip'', JScalar (PyStr ''192.168.1.10'')),
             (''dest_port'', JScalar (PyFloat (Finite 0))),
             (''src_port'', JScalar (PyInt 65535)), (''fwd_bytes'', JScalar (PyInt 0)),
             (''bwd_bytes'', JScalar (PyInt 0)), (''total_bwd_pkts'', JScalar (PyInt 0)),
             (''total_fwd_pkts'', JScalar (PyInt 0)), (''note'', JScalar (PyStr ''idle''))],
           JObject [(''timestamp'', JScalar (PyStr ''2024/01/15 10:30:00'')),
             (''flow_dur'', JScalar (PyFloat (Finite (3 / 2)))),
             (''src_ip'', JScalar (PyStr ''192.168.1.10'')),
             (''dest_ip'', JScalar (PyStr ''10.0.0.5'')),
             (''dest_port'', JScalar (PyFloat (Finite (161 / 2)))),
             (''src_port'', JScalar (PyInt 0)), (''fwd_bytes'', JScalar (PyInt 1)),
             (''bwd_bytes'', JScalar (PyInt 2)), (''total_bwd_pkts'', JScalar (PyInt 3)),
             (''total_fwd_pkts'', JScalar (PyInt 4)), (''note'', JScalar (PyStr ''a < b''))],
           JObject [(''timestamp'', JScalar (PyStr ''2024-01-15 10:30:00'')),
             (''flow_dur'', JScalar (PyFloat (Finite 0))),
             (''src_ip'', JScalar (PyStr ''10.0.0.5'')),
             (''dest_ip'', JScalar (PyStr ''10.0.0.5'')),
             (''dest_port'', JScalar (PyFloat (Finite 65535))),
             (''src_port'', JScalar (PyInt 22)), (''fwd_bytes'', JScalar (PyInt 5)),
             (''bwd_bytes'', JScalar (PyInt 6)), (''total_bwd_pkts'', JScalar (PyInt 7)),
             (''total_fwd_pkts'', JScalar (PyInt 8)), (''note'', JScalar (PyStr ''none''))],
           JObject [(''timestamp'', JScalar (PyStr ''2024-01-15T10:30:00'')),
             (''flow_dur'', JScalar (PyFloat (Finite (3 / 2)))),
             (''src_ip'', JScalar (PyStr ''192.168.1.10'')),
             (''dest_ip'', JScalar (PyStr ''192.168.1.10'')),
             (''dest_port'', JScalar (PyFloat (Finite 53))), (''src_port'', JScalar (PyInt 53)),
             (''fwd_bytes'', JScalar (PyInt 9)), (''bwd_bytes'', JScalar (PyInt 9)),
             (''total_bwd_pkts'', JScalar (PyInt 9)), (''total_fwd_pkts'', JScalar (PyInt 9)),
             (''note'', JScalar (PyStr ''dns''))]]]]"
proof -
  obtain r' errors out w' where
    e: "handle_upload demo_lib demo_env demo_server 0 0 demo_world = ((r', errors, out), w')"
    by (metis surj_pair)
  have t0: "tables demo_world ! 0 = five_rows_df" and lt: "0 < length (tables demo_world)"
    and lm: "limiter demo_world = api_rate_limiter" and ps: "posted demo_world = []"
    by (simp_all add: demo_world_def)
  have r': "r' = 1" using demo_upload_reference e by simp
  note t = five_valid_rows_one_call
            [of 0 demo_world demo_lib demo_env "''https://serving.example/classify''" 0
                demo_server r' errors out w',
             OF lt _ _ _ _ _ _ _ _ _ _ e, unfolded t0 lm ps,
             OF five_rows_wf five_rows_conforming five_rows_distinct five_rows_count
                five_rows_required five_rows_valid five_rows_json_ok
                demo_url [THEN conjunct1] demo_url [THEN conjunct2] demo_limiter_admits]
  have a: "errors = []" by (rule t [THEN conjunct1])
  have b: "length (rows (tables w' ! r')) = 5"
    by (rule t [THEN conjunct2, THEN conjunct2, THEN conjunct1])
  from t obtain request where
    "posted w' = [request]"
    "json_arg request =
       JArray [JArray (map (\<lambda>row. JObject (zip (map normalize_label (columns five_rows_df))
                     (map JScalar
                        (map (\<lambda>(d, v). if d = Object then PyStr (re_sub_tags (py_str demo_lib v)) else v)
                             (zip (dtypes five_rows_df) row)))))
                   (rows five_rows_df))]"
    by auto
  then have c: "map json_arg (posted w') =
   [JArray [JArray [
           JObject [(''timestamp'', JScalar (PyStr ''2024-01-15 10:30:00'')),
             (''flow_dur'', JScalar (PyFloat (Finite (3 / 2)))),
             (''src_ip'', JScalar (PyStr ''192.168.1.10'')),
             (''dest_ip'', JScalar (PyStr ''10.0.0.5'')),
             (''dest_port'', JScalar (PyFloat (Finite 443))),
             (''src_port'', JScalar (PyInt 51234)), (''fwd_bytes'', JScalar (PyInt 1200)),
             (''bwd_bytes'', JScalar (PyInt 3400)), (''total_bwd_pkts'', JScalar (PyInt 12)),
             (''total_fwd_pkts'', JScalar (PyInt 10)), (''note'', JScalar (PyStr ''web''))],
           JObject [(''timestamp'', JScalar (PyStr ''2024-01-15T10:30:00'')),
             (''flow_dur'', JScalar (PyFloat (Finite 0))),
             (''src_ip'', JScalar (PyStr ''10.0.0.5'')),
             (''dest_ip'', JScalar (PyStr ''192.168.1.10'')),
             (''dest_port'', JScalar (PyFloat (Finite 0))),
             (''src_port'', JScalar (PyInt 65535)), (''fwd_bytes'', JScalar (PyInt 0)),
             (''bwd_bytes'', JScalar (PyInt 0)), (''total_bwd_pkts'', JScalar (PyInt 0)),
             (''total_fwd_pkts'', JScalar (PyInt 0)), (''note'', JScalar (PyStr ''idle''))],
           JObject [(''timestamp'', JScalar (PyStr ''2024/01/15 10:30:00'')),
             (''flow_dur'', JScalar (PyFloat (Finite (3 / 2)))),
             (''src_ip'', JScalar (PyStr ''192.168.1.10'')),
             (''dest_ip'', JScalar (PyStr ''10.0.0.5'')),
             (''dest_port'', JScalar (PyFloat (Finite (161 / 2)))),
             (''src_port'', JScalar (PyInt 0)), (''fwd_bytes'', JScalar (PyInt 1)),
             (''bwd_bytes'', JScalar (PyInt 2)), (''total_bwd_pkts'', JScalar (PyInt 3)),
             (''total_fwd_pkts'', JScalar (PyInt 4)), (''note'', JScalar (PyStr ''a < b''))],
           JObject [(''timestamp'', JScalar (PyStr ''2024-01-15 10:30:00'')),
             (''flow_dur'', JScalar (PyFloat (Finite 0))),
             (''src_ip'', JScalar (PyStr ''10.0.0.5'')),
             (''dest_ip'', JScalar (PyStr ''10.0.0.5'')),
             (''dest_port'', JScalar (PyFloat (Finite 65535))),
             (''src_port'', JScalar (PyInt 22)), (''fwd_bytes'', JScalar (PyInt 5)),
             (''bwd_bytes'', JScalar (PyInt 6)), (''total_bwd_pkts'', JScalar (PyInt 7)),
             (''total_fwd_pkts'', JScalar (PyInt 8)), (''note'', JScalar (PyStr ''none''))],
           JObject [(''timestamp'', JScalar (PyStr ''2024-01-15T10:30:00'')),
             (''flow_dur'', JScalar (PyFloat (Finite (3 / 2)))),
             (''src_ip'', JScalar (PyStr ''192.168.1.10'')),
             (''dest_ip'', JScalar (PyStr ''192.168.1.10'')),
             (''dest_port'', JScalar (PyFloat (Finite 53))), (''src_port'', JScalar (PyInt 53)),
             (''fwd_bytes'', JScalar (PyInt 9)), (''bwd_bytes'', JScalar (PyInt 9)),
             (''total_bwd_pkts'', JScalar (PyInt 9)), (''total_fwd_pkts'', JScalar (PyInt 9)),
             (''note'', JScalar (PyStr ''dns''))]]]]"
    unfolding five_rows_labels by (simp add: five_rows_df_def)
  from a b c show ?thesis by (simp add: e r')
qed

text \<open>The body of the one request is a one-element array, not an array of five
  objects.\<close>

theorem five_valid_rows_counterexample:
  "length (rows (tables (snd (handle_upload demo_lib demo_env demo_server 0 0 demo_world)) ! 1)) = 5 \<and>
   fst (snd (fst (handle_upload demo_lib demo_env demo_server 0 0 demo_world))) = [] \<and>
   length (posted (snd (handle_upload demo_lib demo_env demo_server 0 0 demo_world))) = 1 \<and>
   \<not> is_array_of_objects 5
       (json_arg (hd (posted (snd (handle_upload demo_lib demo_env demo_server 0 0 demo_world)))))"
proof -
  obtain r' errors out w' where
    e: "handle_upload demo_lib demo_env demo_server 0 0 demo_world = ((r', errors, out), w')"
    by (metis surj_pair)
  have t0: "tables demo_world ! 0 = five_rows_df" and lt: "0 < length (tables demo_world)"
    and lm: "limiter demo_world = api_rate_limiter" and ps: "posted demo_world = []"
    by (simp_all add: demo_world_def)
  have r': "r' = 1" using demo_upload_reference e by simp
  have ne: "rows five_rows_df \<noteq> []" and le: "length (rows five_rows_df) \<le> 100"
    using five_rows_count by auto
  note t = upload_of_valid_rows
            [of 0 demo_world demo_lib demo_env "''https://serving.example/classify''" 0
                demo_server r' errors out w',
             OF lt _ _ _ _ _ _ _ _ _ _ _ e, unfolded t0 lm ps,
             OF five_rows_wf five_rows_conforming five_rows_distinct ne le
                five_rows_required five_rows_valid five_rows_json_ok
                demo_url [THEN conjunct1] demo_url [THEN conjunct2] demo_limiter_admits]
  from t have "errors = []" and "tables w' ! r' = sanitized demo_lib five_rows_df"
    and "length (posted w') = 1"
    and "json_arg (hd (posted w')) = JArray [payload_of (sanitized demo_lib five_rows_df)]"
    by simp_all
  moreover have "length (rows (sanitized demo_lib five_rows_df)) = 5"
    by (simp add: sanitized_def five_rows_count)
  ultimately show ?thesis using e r' by (simp add: payload_of_def)
qed

end
